(* ===== verification/Prelude.thy ===== *)
theory Prelude
  imports Main "HOL-Library.Word" "HOL-Library.Monad_Syntax"
begin

text \<open>
  Shared vocabulary of the development: bytes and frames, Go's fixed-size arrays
  \<^verbatim>\<open>[6]byte\<close> (a MAC address) and \<^verbatim>\<open>[4]byte\<close> (an IPv4 address), Go's slice
  expressions with their run-time panics, the \<^verbatim>\<open>encoding/binary\<close> big-endian
  accessors, and the list lemmas the components share.

  A Go expression that can panic (an index or slice out of range) has an \<open>option\<close>
  value here: \<open>None\<close> is the panic. Go's own error returns are values of a sum type
  inside that option, so that a panic and an error are never confused.
\<close>

unbundle bit_operations_syntax

named_theorems bounds_simps \<open>slices, indices and big-endian reads inside the bounds\<close>
named_theorems wire_simps \<open>byte-level layout of encoded values\<close>

type_synonym byte = "8 word"
type_synonym u16 = "16 word"
type_synonym u32 = "32 word"
type_synonym u64 = "64 word"
type_synonym bytes = "8 word list"
type_synonym frame = "8 word list"

section \<open>Fixed-size arrays\<close>

datatype mac = MAC byte byte byte byte byte byte
datatype ip4 = IP4 byte byte byte byte

fun mac_bytes :: "mac \<Rightarrow> bytes" where
  "mac_bytes (MAC a b c d e f) = [a, b, c, d, e, f]"

fun ip4_bytes :: "ip4 \<Rightarrow> bytes" where
  "ip4_bytes (IP4 a b c d) = [a, b, c, d]"

text \<open>
  \<^verbatim>\<open>var a [n]byte; copy(a[:], xs)\<close>: the first \<open>n\<close> bytes of \<open>xs\<close>, and
  zeros where \<open>xs\<close> is shorter.
\<close>

definition pad :: "nat \<Rightarrow> bytes \<Rightarrow> bytes" where
  "pad n xs = take n (xs @ replicate n 0)"

definition mac_of :: "bytes \<Rightarrow> mac" where
  "mac_of xs = (let p = pad 6 xs in MAC (p ! 0) (p ! 1) (p ! 2) (p ! 3) (p ! 4) (p ! 5))"

definition ip4_of :: "bytes \<Rightarrow> ip4" where
  "ip4_of xs = (let p = pad 4 xs in IP4 (p ! 0) (p ! 1) (p ! 2) (p ! 3))"

lemma length_pad [simp]: "length (pad n xs) = n"
  by (simp add: pad_def)

lemma pad_exact: "length xs = n \<Longrightarrow> pad n xs = xs"
  by (simp add: pad_def)

lemma length_mac_bytes [simp]: "length (mac_bytes m) = 6"
  by (cases m) simp

lemma length_ip4_bytes [simp]: "length (ip4_bytes a) = 4"
  by (cases a) simp

lemma mac_of_bytes [simp]: "mac_of (mac_bytes m) = m"
  by (cases m) (simp add: mac_of_def pad_def)

lemma ip4_of_bytes [simp]: "ip4_of (ip4_bytes a) = a"
  by (cases a) (simp add: ip4_of_def pad_def)

lemma mac_bytes_inject [simp]: "mac_bytes m = mac_bytes n \<longleftrightarrow> m = n"
  by (metis mac_of_bytes)

lemma ip4_bytes_inject [simp]: "ip4_bytes a = ip4_bytes b \<longleftrightarrow> a = b"
  by (metis ip4_of_bytes)

lemma list6_exhaust: "length xs = 6 \<Longrightarrow> \<exists>a b c d e f. xs = [a, b, c, d, e, f]"
  by (auto simp: length_Suc_conv eval_nat_numeral)

lemma list4_exhaust: "length xs = 4 \<Longrightarrow> \<exists>a b c d. xs = [a, b, c, d]"
  by (auto simp: length_Suc_conv eval_nat_numeral)

lemma mac_bytes_of: "length xs = 6 \<Longrightarrow> mac_bytes (mac_of xs) = xs"
  by (auto dest!: list6_exhaust simp: mac_of_def pad_def)

lemma ip4_bytes_of: "length xs = 4 \<Longrightarrow> ip4_bytes (ip4_of xs) = xs"
  by (auto dest!: list4_exhaust simp: ip4_of_def pad_def)

section \<open>Slices and indices\<close>

text \<open>\<^verbatim>\<open>b[i:j]\<close>, \<^verbatim>\<open>b[i:]\<close> and \<^verbatim>\<open>b[i]\<close>; \<open>None\<close> is the run-time panic.\<close>

definition subslice :: "'a list \<Rightarrow> nat \<Rightarrow> nat \<Rightarrow> 'a list option" where
  "subslice b i j = (if i \<le> j \<and> j \<le> length b then Some (take (j - i) (drop i b)) else None)"

definition subslice_from :: "'a list \<Rightarrow> nat \<Rightarrow> 'a list option" where
  "subslice_from b i = (if i \<le> length b then Some (drop i b) else None)"

definition idx :: "'a list \<Rightarrow> nat \<Rightarrow> 'a option" where
  "idx b i = (if i < length b then Some (b ! i) else None)"

text \<open>\<^verbatim>\<open>copy(b[i:j], src)\<close>: the destination is \<open>b\<close> with \<open>min (j - i) (length src)\<close> bytes replaced.\<close>

definition copy_into :: "bytes \<Rightarrow> nat \<Rightarrow> nat \<Rightarrow> bytes \<Rightarrow> bytes option" where
  "copy_into b i j src =
     (if i \<le> j \<and> j \<le> length b
      then let n = min (j - i) (length src) in Some (take i b @ take n src @ drop (i + n) b)
      else None)"

text \<open>\<^verbatim>\<open>b[i] = x\<close>.\<close>

definition store :: "bytes \<Rightarrow> nat \<Rightarrow> byte \<Rightarrow> bytes option" where
  "store b i x = (if i < length b then Some (b[i := x]) else None)"

lemma subslice_in [bounds_simps]: "i \<le> j \<Longrightarrow> j \<le> length b \<Longrightarrow> subslice b i j = Some (take (j - i) (drop i b))"
  by (simp add: subslice_def)

lemma subslice_from_in [bounds_simps]: "i \<le> length b \<Longrightarrow> subslice_from b i = Some (drop i b)"
  by (simp add: subslice_from_def)

lemma idx_in [bounds_simps]: "i < length b \<Longrightarrow> idx b i = Some (b ! i)"
  by (simp add: idx_def)

lemma idx_0 [bounds_simps]: "Suc 0 \<le> length b \<Longrightarrow> idx b 0 = Some (b ! 0)"
  by (cases b) (simp_all add: idx_def)

lemma store_in [bounds_simps]: "i < length b \<Longrightarrow> store b i x = Some (b[i := x])"
  by (simp add: store_def)

lemma length_copy_into: "copy_into b i j src = Some b' \<Longrightarrow> length b' = length b"
  by (auto simp: copy_into_def Let_def split: if_splits)

text \<open>A copy whose destination is exactly as long as its source.\<close>

lemma copy_into_exact [bounds_simps]:
  "j = i + length src \<Longrightarrow> j \<le> length b \<Longrightarrow>
   copy_into b i j src = Some (take i b @ src @ drop j b)"
  by (simp add: copy_into_def)

text \<open>
  A frame is built front to back in a zeroed buffer: each write replaces the zeros right
  behind the part already written.
\<close>

lemma copy_into_zeros:
  "length pre = i \<Longrightarrow> i \<le> j \<Longrightarrow> j \<le> i + n \<Longrightarrow>
   copy_into (pre @ replicate n 0) i j src = Some ((pre @ pad (j - i) src) @ replicate (n - (j - i)) 0)"
  by (auto simp: copy_into_def pad_def Let_def min_def take_replicate simp flip: replicate_add)

lemma store_zeros:
  "length pre = i \<Longrightarrow> 0 < n \<Longrightarrow>
   store (pre @ replicate n 0) i x = Some ((pre @ [x]) @ replicate (n - 1) 0)"
  by (cases n) (auto simp: store_def list_update_append)

section \<open>Big-endian integers\<close>

text \<open>\<^verbatim>\<open>binary.BigEndian.Uint16/Uint32\<close> panic on a slice that is too short.\<close>

fun be16 :: "bytes \<Rightarrow> u16 option" where
  "be16 (a # b # _) = Some (push_bit 8 (ucast a) OR ucast b)"
| "be16 _ = None"

fun be32 :: "bytes \<Rightarrow> u32 option" where
  "be32 (a # b # c # d # _) =
     Some (push_bit 24 (ucast a) OR push_bit 16 (ucast b) OR push_bit 8 (ucast c) OR ucast d)"
| "be32 _ = None"

definition put16 :: "u16 \<Rightarrow> bytes" where
  "put16 w = [ucast (drop_bit 8 w), ucast w]"

definition put32 :: "u32 \<Rightarrow> bytes" where
  "put32 w = [ucast (drop_bit 24 w), ucast (drop_bit 16 w), ucast (drop_bit 8 w), ucast w]"

text \<open>\<^verbatim>\<open>binary.BigEndian.Uint16(b[i:i+2])\<close> and \<^verbatim>\<open>Uint32(b[i:i+4])\<close>.\<close>

definition u16_at :: "bytes \<Rightarrow> nat \<Rightarrow> u16 option" where
  "u16_at b i = Option.bind (subslice b i (i + 2)) be16"

definition u32_at :: "bytes \<Rightarrow> nat \<Rightarrow> u32 option" where
  "u32_at b i = Option.bind (subslice b i (i + 4)) be32"

lemma length_put16 [simp]: "length (put16 w) = 2"
  by (simp add: put16_def)

lemma length_put32 [simp]: "length (put32 w) = 4"
  by (simp add: put32_def)

lemma be16_put16 [simp]: "be16 (put16 w @ xs) = Some w"
  by (auto simp: put16_def bit_simps intro!: bit_word_eqI)

lemma bit_byte_high: "8 \<le> n \<Longrightarrow> \<not> bit (b :: byte) n"
  by (auto dest: bit_imp_le_length)

lemma be32_put32 [simp]: "be32 (put32 w @ xs) = Some w"
proof -
  have "bit (push_bit 24 (ucast (ucast (drop_bit 24 w) :: 8 word)) OR
     push_bit 16 (ucast (ucast (drop_bit 16 w) :: 8 word)) OR
     push_bit 8 (ucast (ucast (drop_bit 8 w) :: 8 word)) OR ucast (ucast w :: 8 word) :: 32 word) n = bit w n"
    if "n < 32" for n
    using that by (cases "n < 8"; cases "n < 16"; cases "n < 24") (auto simp: bit_simps)
  then show ?thesis by (auto simp: put32_def intro!: bit_word_eqI)
qed

lemma put32_be32: "be32 [a, b, c, d] = Some w \<Longrightarrow> put32 w = [a, b, c, d]"
  by (auto simp: put32_def bit_simps bit_byte_high intro!: bit_word_eqI)

lemma put16_be16: "be16 [a, b] = Some w \<Longrightarrow> put16 w = [a, b]"
  by (auto simp: put16_def bit_simps bit_byte_high intro!: bit_word_eqI)

lemmas be_put_nil [simp] = be16_put16 [where xs = "[]", simplified] be32_put32 [where xs = "[]", simplified]

lemma take_drop_nth2: "i + 2 \<le> length b \<Longrightarrow> take 2 (drop i b) = [b ! i, b ! (i + 1)]"
  by (rule nth_equalityI) (auto simp: less_Suc_eq numeral_2_eq_2)

lemma u16_at_in [bounds_simps]: "i + 2 \<le> length b \<Longrightarrow>
    u16_at b i = Some (push_bit 8 (ucast (b ! i)) OR ucast (b ! (i + 1)))"
  by (simp add: u16_at_def subslice_in take_drop_nth2)

text \<open>An IPv4 address as the 32-bit number Go's address arithmetic works on, and back.\<close>

definition ip4_u32 :: "ip4 \<Rightarrow> u32" where
  "ip4_u32 a = (case a of IP4 a b c d \<Rightarrow>
     push_bit 24 (ucast a) OR push_bit 16 (ucast b) OR push_bit 8 (ucast c) OR ucast d)"

definition u32_ip4 :: "u32 \<Rightarrow> ip4" where
  "u32_ip4 w = ip4_of (put32 w)"

lemma be32_ip4_bytes [simp]: "be32 (ip4_bytes a) = Some (ip4_u32 a)"
  by (cases a) (simp add: ip4_u32_def)

lemma ip4_u32_inverse [simp]: "u32_ip4 (ip4_u32 a) = a"
proof (cases a)
  case (IP4 x y z w)
  then have "be32 [x, y, z, w] = Some (ip4_u32 a)" by (simp add: ip4_u32_def)
  from put32_be32 [OF this] have "put32 (ip4_u32 a) = ip4_bytes a" by (simp add: IP4)
  then show ?thesis by (simp add: u32_ip4_def)
qed

lemma u32_ip4_inverse [simp]: "ip4_u32 (u32_ip4 w) = w"
proof -
  have "be32 (ip4_bytes (ip4_of (put32 w))) = be32 (put32 w)"
    by (simp only: ip4_bytes_of length_put32)
  then show ?thesis by (simp add: u32_ip4_def)
qed

lemma u32_ip4_inject [simp]: "u32_ip4 v = u32_ip4 w \<longleftrightarrow> v = w"
  by (metis u32_ip4_inverse)

lemma ip4_u32_inject [simp]: "ip4_u32 a = ip4_u32 b \<longleftrightarrow> a = b"
  by (metis ip4_u32_inverse)

lemma u16_at_defined: "i + 2 \<le> length b \<Longrightarrow> \<exists>w. u16_at b i = Some w"
  by (simp add: u16_at_in)

lemma byte_bound: "unat (b :: byte) < 256"
  using unsigned_less [of b] by simp

lemma u16_bound: "unat (w :: u16) < 65536"
  using unsigned_less [of w] by simp

lemma unat_of_nat16: "n < 2 ^ 16 \<Longrightarrow> unat (of_nat n :: u16) = n"
  by (simp add: unat_of_nat take_bit_eq_mod)

lemma u32_at_defined: "i + 4 \<le> length b \<Longrightarrow> \<exists>w. u32_at b i = Some w"
proof -
  assume "i + 4 \<le> length b"
  then have "length (take 4 (drop i b)) = 4" by simp
  from list4_exhaust [OF this] obtain w x y z where "take 4 (drop i b) = [w, x, y, z]"
    by blast
  with \<open>i + 4 \<le> length b\<close> show ?thesis by (simp add: u32_at_def subslice_in)
qed

section \<open>Masks and ranges of 32-bit addresses\<close>

lemma and_not_mask_eq: "w AND NOT (mask k) = push_bit k (drop_bit k w)" for w :: u32
  by (auto simp: bit_simps intro!: bit_word_eqI)

lemma drop_bit_word_mono: "a \<le> b \<Longrightarrow> drop_bit k a \<le> drop_bit k b" for a b :: u32
  by (metis word_le_nat_alt unat_drop_bit_eq drop_bit_eq_div div_le_mono)

lemma subnet_member:
  fixes net a :: u32
  assumes "net = x AND NOT (mask k)" "net \<le> a" "a \<le> net OR mask k"
  shows "a AND NOT (mask k) = net"
proof -
  have "drop_bit k (net OR mask k) = drop_bit k net"
    by (auto simp: bit_simps intro!: bit_word_eqI)
  with assms(2,3) have "drop_bit k a = drop_bit k net"
    using drop_bit_word_mono [of net a k] drop_bit_word_mono [of a "net OR mask k" k] by simp
  then have "a AND NOT (mask k) = net AND NOT (mask k)" by (simp add: and_not_mask_eq)
  then show ?thesis by (simp add: assms(1) ac_simps)
qed

lemma be32_and:
  assumes "length xs = 4" "length ys = 4" "be32 xs = Some x" "be32 ys = Some y"
  shows "be32 (map2 (AND) xs ys) = Some (x AND y)"
proof -
  obtain a b c d where xs: "xs = [a, b, c, d]" using list4_exhaust [OF assms(1)] by blast
  obtain e f g h where ys: "ys = [e, f, g, h]" using list4_exhaust [OF assms(2)] by blast
  have "push_bit 24 (ucast (a AND e)) OR push_bit 16 (ucast (b AND f)) OR push_bit 8 (ucast (c AND g)) OR
      ucast (d AND h) =
    ((push_bit 24 (ucast a) OR push_bit 16 (ucast b) OR push_bit 8 (ucast c) OR ucast d) AND
     (push_bit 24 (ucast e) OR push_bit 16 (ucast f) OR push_bit 8 (ucast g) OR ucast h) :: u32)"
    (is "?l = ?r")
  proof (rule bit_word_eqI)
    fix n assume "n < LENGTH(32)"
    then show "bit ?l n = bit ?r n"
      by (cases "n < 8"; cases "n < 16"; cases "n < 24") (auto simp: bit_simps bit_byte_high)
  qed
  with assms(3,4) show ?thesis by (simp add: xs ys)
qed

lemma be32_defined: "length xs = 4 \<Longrightarrow> \<exists>w. be32 xs = Some w"
  using list4_exhaust [of xs] by auto

lemma of_int_less: "0 \<le> k \<Longrightarrow> k < int (unat (b - a)) \<Longrightarrow> a < b \<Longrightarrow>
    a \<le> a + of_int k \<and> a + of_int k < (b :: u32)"
proof -
  assume k: "0 \<le> k" "k < int (unat (b - a))" and ab: "a < b"
  have "unat (b - a) = unat b - unat a" using ab by (simp add: unat_sub order.strict_implies_order)
  then have kk: "nat k + unat a < unat b" using k by linarith
  have "unat b < 2 ^ 32" using unsigned_less [of b] by simp
  then have "unat (of_int k :: u32) = nat k"
    using kk k(1) by (cases k) (simp_all add: unat_of_nat take_bit_nat_eq_self)
  then have "unat (a + of_int k) = unat a + nat k"
    using kk \<open>unat b < 2 ^ 32\<close> by (simp add: unat_word_ariths)
  then show ?thesis using kk by (simp add: word_le_nat_alt word_less_nat_alt)
qed

end
