(* ===== verification/VSwitch.thy ===== *)
theory VSwitch
  imports Prelude "HOL-Library.AList"
begin

text \<open>
  The learning switch of \<^verbatim>\<open>internal/vswitch/vswitch.go\<close>. The port objects
  \<^verbatim>\<open>*port\<close> are shared between the port table and the writer goroutines, so they live
  in a heap \<open>objs\<close> and the table holds indices into it: a writer keeps its object after
  \<^verbatim>\<open>RemovePort\<close> has taken it out of the table. The port table is an association list;
  the order of its entries is the order Go's \<^verbatim>\<open>range\<close> happens to visit them in.

  Each operation that holds the mutex is one function. Synchronous sends
  (\<^verbatim>\<open>sink.SendFrame\<close> called by the forwarding goroutine itself) are returned as a list
  of pairs of port object and frame. \<open>None\<close> is a run-time panic: a frame longer than the
  pooled buffers, or the second close of a channel.
\<close>

section \<open>State\<close>

definition uplink :: int where "uplink = -1"
definition local_port :: int where "local_port = -2"
definition max_peers :: nat where "max_peers = 32"
definition out_queue :: nat where "out_queue = 1024"
definition link_frame_max :: nat where "link_frame_max = 9234"
definition mac_ttl :: int where "mac_ttl = 300 * 1000000000"

text \<open>
  \<open>p_num\<close> is the port number the writer goroutine closed over, \<open>p_run\<close> says that the
  goroutine has not returned yet.
\<close>

record port_obj =
  p_sink :: nat
  p_out :: "frame list"
  p_done :: bool
  p_num :: int
  p_run :: bool

record mac_entry =
  e_port :: int
  e_seen :: int

record switch =
  macs :: "mac \<Rightarrow> mac_entry option"
  ports :: "(int \<times> nat) list"
  objs :: "port_obj list"
  drops :: u64
  peers :: int

definition new_switch :: switch where
  "new_switch = \<lparr>macs = Map.empty, ports = [], objs = [], drops = 0, peers = 0\<rparr>"

definition new_port :: "int \<Rightarrow> nat \<Rightarrow> port_obj" where
  "new_port p snk = \<lparr>p_sink = snk, p_out = [], p_done = False, p_num = p, p_run = True\<rparr>"

section \<open>Ports\<close>

definition add_port :: "int \<Rightarrow> nat \<Rightarrow> switch \<Rightarrow> switch" where
  "add_port p snk s = s\<lparr>objs := objs s @ [new_port p snk], ports := AList.update p (length (objs s)) (ports s)\<rparr>"

definition forget :: "int \<Rightarrow> (mac \<Rightarrow> mac_entry option) \<Rightarrow> mac \<Rightarrow> mac_entry option" where
  "forget p ms m = (case ms m of None \<Rightarrow> None | Some e \<Rightarrow> if e_port e = p then None else Some e)"

definition remove_port :: "int \<Rightarrow> switch \<Rightarrow> switch option" where
  "remove_port p s = do {
     s \<leftarrow> (case map_of (ports s) p of
         None \<Rightarrow> Some s
       | Some n \<Rightarrow>
           if p_done (objs s ! n) then None
           else Some (s\<lparr>objs := (objs s)[n := (objs s ! n)\<lparr>p_done := True\<rparr>],
                        ports := AList.delete p (ports s),
                        peers := (if 0 \<le> p then peers s - 1 else peers s)\<rparr>));
     Some (s\<lparr>macs := forget p (macs s)\<rparr>) }"

text \<open>\<^verbatim>\<open>AddPeer\<close> takes the lowest free peer port, and reports no port when all are in use.\<close>

definition add_peer :: "nat \<Rightarrow> switch \<Rightarrow> switch \<times> int option" where
  "add_peer snk s = (case find (\<lambda>p. map_of (ports s) p = None) (map int [0..<max_peers]) of
       None \<Rightarrow> (s, None)
     | Some p \<Rightarrow> ((add_port p snk s)\<lparr>peers := peers s + 1\<rparr>, Some p))"

section \<open>Forwarding\<close>

text \<open>\<^verbatim>\<open>getFrame(len(frame))\<close> followed by \<^verbatim>\<open>copy\<close>: every pooled buffer has capacity 9234.\<close>

definition clone_frame :: "frame \<Rightarrow> frame option" where
  "clone_frame frame = (if length frame \<le> link_frame_max then Some frame else None)"

text \<open>The \<^verbatim>\<open>select\<close> on the bounded channel: enqueue, or count a drop when it is full.\<close>

definition post :: "frame \<Rightarrow> nat \<Rightarrow> switch \<Rightarrow> switch option" where
  "post frame n s = do {
     buf \<leftarrow> clone_frame frame;
     let pt = objs s ! n;
     Some (if length (p_out pt) < out_queue
           then s\<lparr>objs := (objs s)[n := pt\<lparr>p_out := p_out pt @ [buf]\<rparr>]\<rparr>
           else s\<lparr>drops := drops s + 1\<rparr>) }"

fun post_all :: "frame \<Rightarrow> nat list \<Rightarrow> switch \<Rightarrow> switch option" where
  "post_all frame [] s = Some s"
| "post_all frame (n # ns) s = Option.bind (post frame n s) (post_all frame ns)"

type_synonym sends = "(nat \<times> frame) list"

definition emit :: "int \<Rightarrow> frame \<Rightarrow> switch \<Rightarrow> (switch \<times> sends) option" where
  "emit p frame s = (case map_of (ports s) p of
       None \<Rightarrow> Some (s, [])
     | Some n \<Rightarrow>
         if peers s = 0 then Some (s, [(n, frame)])
         else map_option (\<lambda>s. (s, [])) (post frame n s))"

definition flood :: "int \<Rightarrow> frame \<Rightarrow> switch \<Rightarrow> (switch \<times> sends) option" where
  "flood from frame s = (
     let targets = map snd (filter (\<lambda>(p, n). p \<noteq> from) (ports s)) in
     case targets of
       [] \<Rightarrow> Some (s, [])
     | [n] \<Rightarrow> Some (s, [(n, frame)])
     | _ \<Rightarrow> map_option (\<lambda>s. (s, [])) (post_all frame targets s))"

definition is_multicast :: "mac \<Rightarrow> bool" where
  "is_multicast m = (case m of MAC a _ _ _ _ _ \<Rightarrow> a AND 1 \<noteq> 0)"

definition learn :: "mac \<Rightarrow> int \<Rightarrow> int \<Rightarrow> switch \<Rightarrow> switch" where
  "learn m from now s = (
     if is_multicast m then s
     else case macs s m of
         Some e \<Rightarrow>
           if e_port e = from then s\<lparr>macs := (macs s)(m \<mapsto> e\<lparr>e_seen := now\<rparr>)\<rparr>
           else s\<lparr>macs := (macs s)(m \<mapsto> \<lparr>e_port = from, e_seen = now\<rparr>)\<rparr>
       | None \<Rightarrow> s\<lparr>macs := (macs s)(m \<mapsto> \<lparr>e_port = from, e_seen = now\<rparr>)\<rparr>)"

definition lookup :: "mac \<Rightarrow> int \<Rightarrow> switch \<Rightarrow> switch \<times> int option" where
  "lookup m now s = (case macs s m of
       None \<Rightarrow> (s, None)
     | Some e \<Rightarrow>
         if now - e_seen e > mac_ttl then (s\<lparr>macs := (macs s)(m := None)\<rparr>, None)
         else (s, Some (e_port e)))"

text \<open>\<open>t1\<close> and \<open>t2\<close> are the clock readings of \<^verbatim>\<open>learn\<close> and of \<^verbatim>\<open>lookup\<close>, in nanoseconds.\<close>

definition forward :: "int \<Rightarrow> int \<Rightarrow> int \<Rightarrow> frame \<Rightarrow> switch \<Rightarrow> (switch \<times> sends) option" where
  "forward t1 t2 from frame s = (
     if length frame < 14 then Some (s, [])
     else do {
       src \<leftarrow> subslice frame 6 12;
       let s = learn (mac_of src) from t1 s;
       b0 \<leftarrow> idx frame 0;
       if b0 AND 1 \<noteq> 0 then flood from frame s
       else do {
         d \<leftarrow> subslice frame 0 6;
         let (s, dst) = lookup (mac_of d) t2 s;
         case dst of
           None \<Rightarrow> flood from frame s
         | Some p \<Rightarrow> if p = from then Some (s, []) else emit p frame s } })"

section \<open>Writer goroutines\<close>

text \<open>
  One iteration of the writer of port object \<open>n\<close>. \<^verbatim>\<open>select\<close> takes either ready case,
  so a writer whose channel still holds frames may send another one after its port was
  removed. A failed send removes the port of the writer's own number.
\<close>

definition writer_send :: "nat \<Rightarrow> switch \<Rightarrow> (switch \<times> sends) option" where
  "writer_send n s = (case p_out (objs s ! n) of
       [] \<Rightarrow> Some (s, [])
     | f # fs \<Rightarrow> Some (s\<lparr>objs := (objs s)[n := (objs s ! n)\<lparr>p_out := fs\<rparr>]\<rparr>, [(n, f)]))"

definition writer_fail :: "nat \<Rightarrow> switch \<Rightarrow> switch option" where
  "writer_fail n s = (case p_out (objs s ! n) of
       [] \<Rightarrow> Some s
     | f # fs \<Rightarrow>
         remove_port (p_num (objs s ! n))
           (s\<lparr>objs := (objs s)[n := (objs s ! n)\<lparr>p_out := fs, p_run := False\<rparr>]\<rparr>))"

definition writer_exit :: "nat \<Rightarrow> switch \<Rightarrow> switch" where
  "writer_exit n s =
     (if p_done (objs s ! n) then s\<lparr>objs := (objs s)[n := (objs s ! n)\<lparr>p_run := False\<rparr>]\<rparr> else s)"

text \<open>What can happen to a running switch. Every forward carries a frame read into a buffer of \<^verbatim>\<open>FrameMax\<close> bytes.\<close>

inductive sw_step :: "switch \<Rightarrow> switch \<Rightarrow> bool" where
  step_add_port: "p \<in> {uplink, local_port} \<Longrightarrow> sw_step s (add_port p snk s)"
| step_add_peer: "sw_step s (fst (add_peer snk s))"
| step_remove: "remove_port p s = Some s' \<Longrightarrow> sw_step s s'"
| step_forward: "length frame \<le> link_frame_max \<Longrightarrow> forward t1 t2 from frame s = Some (s', out) \<Longrightarrow> sw_step s s'"
| step_send: "n < length (objs s) \<Longrightarrow> p_run (objs s ! n) \<Longrightarrow> writer_send n s = Some (s', out) \<Longrightarrow> sw_step s s'"
| step_fail: "n < length (objs s) \<Longrightarrow> p_run (objs s ! n) \<Longrightarrow> writer_fail n s = Some s' \<Longrightarrow> sw_step s s'"
| step_exit: "n < length (objs s) \<Longrightarrow> p_run (objs s ! n) \<Longrightarrow> sw_step s (writer_exit n s)"

inductive sw_reachable :: "switch \<Rightarrow> bool" where
  sw_init: "sw_reachable new_switch"
| sw_next: "sw_reachable s \<Longrightarrow> sw_step s s' \<Longrightarrow> sw_reachable s'"

section \<open>The invariant\<close>

definition entry_ok :: "port_obj list \<Rightarrow> int \<times> nat \<Rightarrow> bool" where
  "entry_ok os x \<longleftrightarrow> snd x < length os \<and> \<not> p_done (os ! snd x) \<and> p_num (os ! snd x) = fst x \<and>
     -2 \<le> fst x \<and> fst x < int max_peers"

definition peer_count :: "(int \<times> nat) list \<Rightarrow> nat" where
  "peer_count al = length (filter (\<lambda>x. 0 \<le> fst x) al)"

text \<open>
  The port table is a map without shared objects, all of them open; \<open>peers\<close> counts the
  peer ports; no queue is longer than its channel; only unicast addresses are learned.
\<close>

definition sw_inv :: "switch \<Rightarrow> bool" where
  "sw_inv s \<longleftrightarrow>
     distinct (map fst (ports s)) \<and> distinct (map snd (ports s)) \<and>
     (\<forall>x \<in> set (ports s). entry_ok (objs s) x) \<and>
     peers s = int (peer_count (ports s)) \<and>
     (\<forall>pt \<in> set (objs s). length (p_out pt) \<le> out_queue) \<and>
     (\<forall>m e. macs s m = Some e \<longrightarrow> \<not> is_multicast m)"

lemma sw_inv_new: "sw_inv new_switch"
  by (simp add: sw_inv_def new_switch_def peer_count_def)

lemma entry_ok_snoc: "entry_ok os x \<Longrightarrow> entry_ok (os @ [pt]) x"
  by (auto simp: entry_ok_def nth_append)

lemma entry_ok_other: "entry_ok os x \<Longrightarrow> snd x \<noteq> n \<Longrightarrow> entry_ok (os[n := pt]) x"
  by (auto simp: entry_ok_def)

lemma entry_ok_keep:
  "entry_ok os x \<Longrightarrow> p_done pt = p_done (os ! n) \<Longrightarrow> p_num pt = p_num (os ! n) \<Longrightarrow> entry_ok (os[n := pt]) x"
  by (cases "n = snd x") (auto simp: entry_ok_def)

lemma ports_objs_less: "sw_inv s \<Longrightarrow> x \<in> set (ports s) \<Longrightarrow> snd x < length (objs s)"
  by (auto simp: sw_inv_def entry_ok_def)

lemma ports_obj_unique:
  "sw_inv s \<Longrightarrow> x \<in> set (ports s) \<Longrightarrow> y \<in> set (ports s) \<Longrightarrow> snd x = snd y \<Longrightarrow> x = y"
  unfolding sw_inv_def distinct_map by (meson inj_onD)

lemma queue_update_le:
  "\<forall>pt \<in> set os. length (p_out pt) \<le> k \<Longrightarrow> length (p_out pt') \<le> k \<Longrightarrow>
   \<forall>pt \<in> set (os[n := pt']). length (p_out pt) \<le> k"
  by (auto dest: set_update_subset_insert [THEN subsetD])

text \<open>
  Any change of one port object that keeps its number and its channel open, and any
  change of the MAC table that learns unicast only, keeps the invariant.
\<close>

lemma sw_inv_obj:
  assumes "sw_inv s" "p_done pt = p_done (objs s ! n)" "p_num pt = p_num (objs s ! n)"
    "length (p_out pt) \<le> out_queue"
  shows "sw_inv (s\<lparr>objs := (objs s)[n := pt]\<rparr>)"
  using assms queue_update_le [of "objs s" out_queue pt n] by (simp add: sw_inv_def entry_ok_keep)

lemma sw_inv_macs:
  assumes "sw_inv s" and "\<And>m e. ms m = Some e \<Longrightarrow> \<not> is_multicast m"
  shows "sw_inv (s\<lparr>macs := ms\<rparr>)"
  using assms by (simp add: sw_inv_def)

lemma sw_inv_drops: "sw_inv s \<Longrightarrow> sw_inv (s\<lparr>drops := d\<rparr>)"
  by (simp add: sw_inv_def)

subsection \<open>Association-list lemmas for the port table\<close>

lemma set_alist_update:
  "distinct (map fst al) \<Longrightarrow> set (AList.update k v al) = insert (k, v) {x \<in> set al. fst x \<noteq> k}"
  by (induction al) (auto simp: image_iff split: prod.splits)

lemma distinct_snd_update:
  "distinct (map snd al) \<Longrightarrow> v \<notin> snd ` set al \<Longrightarrow> distinct (map snd (AList.update k v al))"
proof (induction al)
  case (Cons x al)
  have "set (AList.update k v al) \<subseteq> insert (k, v) (set al)"
    by (induction al) auto
  with Cons show ?case by (cases x) (auto simp: image_iff)
qed simp

lemma peer_count_update: "k < 0 \<Longrightarrow> peer_count (AList.update k v al) = peer_count al"
  unfolding peer_count_def by (induction al) auto

lemma update_fresh: "map_of al k = None \<Longrightarrow> AList.update k v al = al @ [(k, v)]"
  by (induction al) (auto split: if_splits)

lemma delete_eq_filter: "AList.delete k al = filter (\<lambda>x. fst x \<noteq> k) al"
  by (auto simp: AList.delete_eq case_prod_beta' intro: filter_cong)

lemma delete_absent: "k \<notin> fst ` set al \<Longrightarrow> AList.delete k al = al"
  by (auto simp: delete_eq_filter filter_id_conv)

lemma peer_count_delete:
  assumes "distinct (map fst al)" "map_of al k = Some n"
  shows "int (peer_count (AList.delete k al)) =
     (if 0 \<le> k then int (peer_count al) - 1 else int (peer_count al))"
  using assms
proof (induction al)
  case (Cons x al)
  show ?case
  proof (cases "fst x = k")
    case True
    with Cons.prems have "AList.delete k al = al" by (intro delete_absent) auto
    with True show ?thesis by (cases x) (simp add: peer_count_def)
  next
    case False
    with Cons have "int (peer_count (AList.delete k al)) =
        (if 0 \<le> k then int (peer_count al) - 1 else int (peer_count al))" by (cases x) simp
    with False show ?thesis by (cases x) (auto simp: peer_count_def)
  qed
qed simp

subsection \<open>Every operation keeps the invariant\<close>

lemma fresh_obj: "sw_inv s \<Longrightarrow> length (objs s) \<notin> snd ` set (ports s)"
  using ports_objs_less by fastforce

lemma new_port_ok: "-2 \<le> p \<Longrightarrow> p < int max_peers \<Longrightarrow> entry_ok (os @ [new_port p snk]) (p, length os)"
  by (simp add: entry_ok_def new_port_def)

lemma new_port_out [simp]: "p_out (new_port p snk) = []"
  by (simp add: new_port_def)

lemma add_port_inv:
  assumes inv: "sw_inv s" and p: "p \<in> {uplink, local_port}"
  shows "sw_inv (add_port p snk s)"
proof -
  from p have "-2 \<le> p" "p < 0" by (auto simp: uplink_def local_port_def)
  with inv fresh_obj [OF inv] show ?thesis
    by (auto simp: sw_inv_def add_port_def distinct_update distinct_snd_update set_alist_update
        peer_count_update max_peers_def intro: entry_ok_snoc new_port_ok)
qed

lemma forget_Some: "forget p ms m = Some e \<Longrightarrow> ms m = Some e"
  by (auto simp: forget_def split: option.splits if_splits)

lemma remove_port_total:
  assumes "sw_inv s" shows "remove_port p s \<noteq> None"
proof (cases "map_of (ports s) p")
  case (Some n)
  then have "(p, n) \<in> set (ports s)" by (rule map_of_SomeD)
  with assms have "\<not> p_done (objs s ! n)" by (auto simp: sw_inv_def entry_ok_def)
  with Some show ?thesis by (simp add: remove_port_def)
qed (simp add: remove_port_def)

lemma remove_port_inv:
  assumes inv: "sw_inv s" and r: "remove_port p s = Some s'"
  shows "sw_inv s'"
proof (cases "map_of (ports s) p")
  case None
  with r have "s' = s\<lparr>macs := forget p (macs s)\<rparr>" by (simp add: remove_port_def)
  with inv show ?thesis by (auto simp: sw_inv_def dest: forget_Some)
next
  case (Some n)
  then have pn: "(p, n) \<in> set (ports s)" by (rule map_of_SomeD)
  from r Some have s': "s' = s\<lparr>objs := (objs s)[n := (objs s ! n)\<lparr>p_done := True\<rparr>],
      ports := AList.delete p (ports s), peers := (if 0 \<le> p then peers s - 1 else peers s),
      macs := forget p (macs s)\<rparr>"
    by (auto simp: remove_port_def split: if_splits)
  have other: "snd x \<noteq> n" if "x \<in> set (ports s)" "fst x \<noteq> p" for x
    using that pn ports_obj_unique [OF inv, of x "(p, n)"] by (metis fst_conv snd_conv)
  have "\<forall>pt \<in> set (objs s'). length (p_out pt) \<le> out_queue"
    using inv ports_objs_less [OF inv pn] queue_update_le [of "objs s" out_queue "(objs s ! n)\<lparr>p_done := True\<rparr>" n]
    by (simp add: s' sw_inv_def)
  moreover have "distinct (map snd (ports s'))"
    using inv by (simp add: s' delete_eq_filter sw_inv_def distinct_map_filter)
  moreover have "\<forall>x \<in> set (ports s'). entry_ok (objs s') x"
    using inv other by (auto simp: s' delete_eq_filter sw_inv_def simp del: split_paired_All intro!: entry_ok_other)
  moreover have "peers s' = int (peer_count (ports s'))"
    using inv peer_count_delete [OF _ Some] by (simp add: s' sw_inv_def)
  ultimately show ?thesis
    using inv by (auto simp: sw_inv_def s' distinct_delete dest: forget_Some)
qed

lemma find_peer_Some:
  "find (\<lambda>p. map_of al p = None) (map int [0..<max_peers]) = Some p \<Longrightarrow>
     map_of al p = None \<and> 0 \<le> p \<and> p < int max_peers"
  by (auto simp: find_Some_iff)

lemma add_peer_inv:
  assumes inv: "sw_inv s" shows "sw_inv (fst (add_peer snk s))"
proof (cases "find (\<lambda>p. map_of (ports s) p = None) (map int [0..<max_peers])")
  case None
  with inv show ?thesis by (simp add: add_peer_def)
next
  case (Some p)
  with find_peer_Some have free: "map_of (ports s) p = None" and p: "0 \<le> p" "p < int max_peers" by blast+
  have upd: "AList.update p (length (objs s)) (ports s) = ports s @ [(p, length (objs s))]"
    by (rule update_fresh [OF free])
  have "p \<notin> fst ` set (ports s)" using free by (simp add: map_of_eq_None_iff)
  with inv fresh_obj [OF inv] p show ?thesis
    by (auto simp: sw_inv_def add_peer_def Some add_port_def upd peer_count_def
        intro: entry_ok_snoc new_port_ok)
qed

subsection \<open>Forwarding keeps the invariant and cannot panic\<close>

lemma post_inv: "sw_inv s \<Longrightarrow> post frame n s = Some s' \<Longrightarrow> sw_inv s'"
  by (auto simp: post_def clone_frame_def Let_def split: if_splits intro!: sw_inv_drops sw_inv_obj)

lemma post_all_inv: "sw_inv s \<Longrightarrow> post_all frame ns s = Some s' \<Longrightarrow> sw_inv s'"
  by (induction ns arbitrary: s) (auto split: bind_splits dest: post_inv)

lemma post_total: "length frame \<le> link_frame_max \<Longrightarrow> post frame n s \<noteq> None"
  by (simp add: post_def clone_frame_def Let_def)

lemma post_all_total: "length frame \<le> link_frame_max \<Longrightarrow> post_all frame ns s \<noteq> None"
proof (induction ns arbitrary: s)
  case (Cons n ns)
  then obtain s' where "post frame n s = Some s'" using post_total by blast
  with Cons show ?case by simp
qed simp

lemma emit_inv: "sw_inv s \<Longrightarrow> emit p frame s = Some (s', out) \<Longrightarrow> sw_inv s'"
  by (auto simp: emit_def split: option.splits if_splits dest: post_inv)

lemma flood_inv: "sw_inv s \<Longrightarrow> flood from frame s = Some (s', out) \<Longrightarrow> sw_inv s'"
  by (auto simp: flood_def Let_def split: list.splits dest: post_all_inv post_inv simp del: post_all.simps)

lemma emit_total: "length frame \<le> link_frame_max \<Longrightarrow> emit p frame s \<noteq> None"
  using post_total by (auto simp: emit_def split: option.splits)

lemma flood_total: "length frame \<le> link_frame_max \<Longrightarrow> flood from frame s \<noteq> None"
  using post_all_total by (auto simp: flood_def Let_def split: list.splits simp del: post_all.simps)

lemma learn_inv: "sw_inv s \<Longrightarrow> sw_inv (learn m from now s)"
  by (auto simp: learn_def split: option.splits intro!: sw_inv_macs if_splits)
    (auto simp: sw_inv_def split: if_splits)

lemma lookup_inv: "sw_inv s \<Longrightarrow> lookup m now s = (s', d) \<Longrightarrow> sw_inv s'"
  by (auto simp: lookup_def sw_inv_def split: option.splits if_splits)

text \<open>\<open>forward\<close> without its slice expressions: the reference form the proofs use.\<close>

definition src_mac :: "frame \<Rightarrow> mac" where
  "src_mac frame = mac_of (take 6 (drop 6 frame))"

definition dst_mac :: "frame \<Rightarrow> mac" where
  "dst_mac frame = mac_of (take 6 frame)"

lemma dst_multicast: "6 \<le> length frame \<Longrightarrow> is_multicast (dst_mac frame) \<longleftrightarrow> frame ! 0 AND 1 \<noteq> 0"
  by (cases frame) (simp_all add: is_multicast_def dst_mac_def mac_of_def pad_exact)

lemma forward_eq:
  assumes "14 \<le> length frame"
  shows "forward t1 t2 from frame s =
     (let s1 = learn (src_mac frame) from t1 s in
      if is_multicast (dst_mac frame) then flood from frame s1
      else (case lookup (dst_mac frame) t2 s1 of
          (s2, None) \<Rightarrow> flood from frame s2
        | (s2, Some p) \<Rightarrow> if p = from then Some (s2, []) else emit p frame s2))"
  using assms
  by (simp add: forward_def subslice_in idx_0 Let_def src_mac_def dst_mac_def
      dst_multicast [unfolded dst_mac_def])

lemma forward_short: "length frame < 14 \<Longrightarrow> forward t1 t2 from frame s = Some (s, [])"
  by (simp add: forward_def)

lemma forward_inv:
  assumes inv: "sw_inv s" and fwd: "forward t1 t2 from frame s = Some (s', out)"
  shows "sw_inv s'"
proof (cases "14 \<le> length frame")
  case False
  with assms show ?thesis by (simp add: forward_short)
next
  case True
  define s1 where "s1 = learn (src_mac frame) from t1 s"
  obtain s2 d where l: "lookup (dst_mac frame) t2 s1 = (s2, d)" by fastforce
  have "sw_inv s1" using inv by (simp add: s1_def learn_inv)
  moreover from this l have "sw_inv s2" by (rule lookup_inv)
  ultimately show ?thesis
    using fwd by (auto simp: forward_eq [OF True] Let_def l simp flip: s1_def
        split: if_splits option.splits dest: flood_inv emit_inv)
qed

lemma forward_total:
  assumes "length frame \<le> link_frame_max" shows "forward t1 t2 from frame s \<noteq> None"
proof (cases "14 \<le> length frame")
  case True
  show ?thesis
    using flood_total [OF assms] emit_total [OF assms]
    by (simp add: forward_eq [OF True] Let_def del: not_None_eq split: prod.split option.split)
qed (simp add: forward_short)

lemma sw_queue_le: "sw_inv s \<Longrightarrow> n < length (objs s) \<Longrightarrow> length (p_out (objs s ! n)) \<le> out_queue"
  by (simp add: sw_inv_def)

lemma writer_send_inv: "sw_inv s \<Longrightarrow> n < length (objs s) \<Longrightarrow> writer_send n s = Some (s', out) \<Longrightarrow> sw_inv s'"
  using sw_queue_le [of s n]
  by (auto simp: writer_send_def split: list.splits intro!: sw_inv_obj)

lemma writer_fail_inv: "sw_inv s \<Longrightarrow> n < length (objs s) \<Longrightarrow> writer_fail n s = Some s' \<Longrightarrow> sw_inv s'"
  using sw_queue_le [of s n]
  by (auto simp: writer_fail_def split: list.splits elim!: remove_port_inv [rotated] intro!: sw_inv_obj)

lemma writer_exit_inv: "sw_inv s \<Longrightarrow> n < length (objs s) \<Longrightarrow> sw_inv (writer_exit n s)"
  using sw_queue_le [of s n] by (auto simp: writer_exit_def intro!: sw_inv_obj)

lemma sw_step_inv: "sw_step s s' \<Longrightarrow> sw_inv s \<Longrightarrow> sw_inv s'"
  by (induction rule: sw_step.induct)
    (auto intro: add_port_inv add_peer_inv remove_port_inv forward_inv writer_send_inv writer_fail_inv writer_exit_inv)

lemma sw_reachable_inv: "sw_reachable s \<Longrightarrow> sw_inv s"
  by (induction rule: sw_reachable.induct) (auto intro: sw_inv_new sw_step_inv)

section \<open>What forwarding delivers\<close>

text \<open>
  The bridge's contract: the port a fresh table entry names, every other port of the
  switch when the destination is a group address or unknown, never the source port.
\<close>

definition fresh_port :: "switch \<Rightarrow> mac \<Rightarrow> int \<Rightarrow> int option" where
  "fresh_port s m now = (case macs s m of
       None \<Rightarrow> None | Some e \<Rightarrow> if now - e_seen e \<le> mac_ttl then Some (e_port e) else None)"

definition dest_ports :: "switch \<Rightarrow> int \<Rightarrow> mac \<Rightarrow> int option \<Rightarrow> int set" where
  "dest_ports s from dst known =
     (if is_multicast dst then fst ` set (ports s)
      else case known of None \<Rightarrow> fst ` set (ports s) | Some p \<Rightarrow> {p} \<inter> fst ` set (ports s)) - {from}"

definition objs_of :: "switch \<Rightarrow> int set \<Rightarrow> nat set" where
  "objs_of s P = {n. \<exists>p \<in> P. (p, n) \<in> set (ports s)}"

definition known_after :: "int \<Rightarrow> int \<Rightarrow> int \<Rightarrow> frame \<Rightarrow> switch \<Rightarrow> int option" where
  "known_after t1 t2 from frame s =
     (if \<not> is_multicast (src_mac frame) \<and> dst_mac frame = src_mac frame
      then (if t2 - t1 \<le> mac_ttl then Some from else None)
      else fresh_port s (dst_mac frame) t2)"

definition room :: "switch \<Rightarrow> nat \<Rightarrow> bool" where
  "room s n \<longleftrightarrow> length (p_out (objs s ! n)) < out_queue"

text \<open>A frame is handed to the objects \<open>D\<close>: enqueued where there is room, counted as a drop elsewhere.\<close>

definition queued_to :: "nat set \<Rightarrow> frame \<Rightarrow> switch \<Rightarrow> switch \<Rightarrow> bool" where
  "queued_to D frame s s' \<longleftrightarrow>
     ports s' = ports s \<and> peers s' = peers s \<and> length (objs s') = length (objs s) \<and>
     (\<forall>n < length (objs s). objs s' ! n = (objs s ! n)
        \<lparr>p_out := p_out (objs s ! n) @ (if n \<in> D \<and> room s n then [frame] else [])\<rparr>) \<and>
     drops s' = drops s + of_nat (card {n \<in> D. \<not> room s n})"

lemma queued_to_none [simp]: "queued_to {} frame s (s\<lparr>macs := ms\<rparr>)"
  by (simp add: queued_to_def)

lemma post_queued:
  assumes "post frame n s = Some s'" "n < length (objs s)"
  shows "queued_to {n} frame s s'" and "macs s' = macs s"
proof -
  have "{m \<in> {n}. \<not> room s m} = (if room s n then {} else {n})" by auto
  with assms show "queued_to {n} frame s s'" "macs s' = macs s"
    by (auto simp: post_def clone_frame_def Let_def queued_to_def room_def nth_list_update split: if_splits)
qed

lemma post_all_queued:
  assumes "post_all frame ns s = Some s'" "distinct ns" "\<forall>n \<in> set ns. n < length (objs s)"
  shows "queued_to (set ns) frame s s' \<and> macs s' = macs s"
  using assms
proof (induction ns arbitrary: s)
  case Nil
  then show ?case by (simp add: queued_to_def)
next
  case (Cons n ns)
  then obtain s1 where s1: "post frame n s = Some s1" and rest: "post_all frame ns s1 = Some s'"
    by (auto split: bind_splits)
  from Cons.prems s1 have q1: "queued_to {n} frame s s1" and m1: "macs s1 = macs s"
    by (auto dest: post_queued)
  from q1 Cons.prems have "\<forall>n \<in> set ns. n < length (objs s1)" by (simp add: queued_to_def)
  with Cons.IH [OF rest] Cons.prems have q2: "queued_to (set ns) frame s1 s'" and m2: "macs s' = macs s1"
    by auto
  have same: "room s1 m = room s m" if "m \<in> set ns" for m
    using that q1 Cons.prems by (auto simp: queued_to_def room_def)
  have split: "{m \<in> set (n # ns). \<not> room s m} = {m \<in> {n}. \<not> room s m} \<union> {m \<in> set ns. \<not> room s1 m}"
    using same by auto
  have "card {m \<in> set (n # ns). \<not> room s m}
      = card {m \<in> {n}. \<not> room s m} + card {m \<in> set ns. \<not> room s1 m}"
    unfolding split using Cons.prems by (intro card_Un_disjoint) auto
  then have dr: "drops s' = drops s + of_nat (card {m \<in> set (n # ns). \<not> room s m})"
    using q1 q2 by (simp add: queued_to_def)
  have "objs s' ! m = (objs s ! m)
        \<lparr>p_out := p_out (objs s ! m) @ (if m \<in> set (n # ns) \<and> room s m then [frame] else [])\<rparr>"
    if "m < length (objs s)" for m
    using that q1 q2 same [of m] Cons.prems by (auto simp: queued_to_def)
  with dr q1 q2 m1 m2 show ?case by (simp add: queued_to_def)
qed

lemma flood_delivers:
  assumes inv: "sw_inv s" and fl: "flood from frame s = Some (s', out)"
    and D: "D = objs_of s (fst ` set (ports s) - {from})"
  shows "(out = [] \<and> queued_to D frame s s') \<or> (\<exists>n. D = {n} \<and> out = [(n, frame)] \<and> s' = s)"
proof -
  let ?ns = "map snd (filter (\<lambda>(p, n). p \<noteq> from) (ports s))"
  have D': "D = set ?ns" by (force simp: D objs_of_def)
  have dist: "distinct ?ns" using inv by (simp add: sw_inv_def distinct_map_filter)
  have less: "\<forall>n \<in> set ?ns. n < length (objs s)" using ports_objs_less [OF inv] by auto
  show ?thesis
  proof (cases "length ?ns \<le> 1")
    case True
    then consider "?ns = []" | n where "?ns = [n]"
      by (cases ?ns) auto
    then show ?thesis
    proof cases
      case 1
      from D' 1 have "D = {}" by (simp only: list.set)
      moreover from fl 1 have "s' = s" "out = []" by (simp_all add: flood_def Let_def)
      ultimately show ?thesis by (simp add: queued_to_def)
    next
      case (2 n)
      from D' 2 have "D = {n}" by (simp only: list.set)
      moreover from fl 2 have "s' = s" "out = [(n, frame)]" by (simp_all add: flood_def Let_def)
      ultimately show ?thesis by simp
    qed
  next
    case False
    then obtain x y zs where ns: "?ns = x # y # zs"
      by (cases ?ns; cases "tl ?ns") auto
    with fl have "out = []" "post_all frame ?ns s = Some s'"
      by (auto simp: flood_def Let_def simp del: post_all.simps)
    with post_all_queued [OF _ dist less] D' show ?thesis by auto
  qed
qed

lemma emit_delivers:
  assumes inv: "sw_inv s" and em: "emit p frame s = Some (s', out)" and D: "D = objs_of s ({p} \<inter> fst ` set (ports s))"
  shows "(out = [] \<and> queued_to D frame s s') \<or> (\<exists>n. D = {n} \<and> out = [(n, frame)] \<and> s' = s)"
proof (cases "map_of (ports s) p")
  case None
  then have "D = {}" by (force simp: D objs_of_def map_of_eq_None_iff)
  with em None show ?thesis by (auto simp: emit_def queued_to_def)
next
  case (Some n)
  have dist: "distinct (map fst (ports s))" using inv by (simp add: sw_inv_def)
  from Some have pn: "(p, n) \<in> set (ports s)" by (rule map_of_SomeD)
  with dist have Dn: "D = {n}" by (force simp: D objs_of_def dest: eq_key_imp_eq_value)
  from ports_objs_less [OF inv pn] have "n < length (objs s)" by simp
  with em Some Dn show ?thesis
    by (auto simp: emit_def split: if_splits dest: post_queued)
qed

lemma learn_fields [simp]:
  "ports (learn m from now s) = ports s" "objs (learn m from now s) = objs s"
  "drops (learn m from now s) = drops s" "peers (learn m from now s) = peers s"
  by (auto simp: learn_def split: option.splits)

lemma learn_macs:
  "macs (learn m from now s) =
     (if is_multicast m then macs s else (macs s)(m \<mapsto> \<lparr>e_port = from, e_seen = now\<rparr>))"
  by (auto simp: learn_def split: option.splits)

lemma lookup_fields:
  assumes "lookup m now s = (s', d)"
  shows "ports s' = ports s" "objs s' = objs s" "drops s' = drops s" "peers s' = peers s"
    and "d = fresh_port s m now"
  using assms by (auto simp: lookup_def fresh_port_def split: option.splits if_splits)

lemma known_after_learn:
  "fresh_port (learn (src_mac frame) from t1 s) (dst_mac frame) t2 =
     known_after t1 t2 from frame s"
  by (auto simp: fresh_port_def known_after_def learn_macs split: option.splits)

lemma delivers_shift:
  assumes "(out = [] \<and> queued_to D frame t s') \<or> (\<exists>n. D = {n} \<and> out = [(n, frame)] \<and> s' = t)"
    and "ports t = ports s" "objs t = objs s" "drops t = drops s" "peers t = peers s"
  shows "(out = [] \<and> queued_to D frame s s') \<or>
     (\<exists>n. D = {n} \<and> out = [(n, frame)] \<and> objs s' = objs s \<and> drops s' = drops s)"
  using assms by (auto simp: queued_to_def room_def)

lemma forward_delivers:
  assumes inv: "sw_inv s" and len: "14 \<le> length frame"
    and fwd: "forward t1 t2 from frame s = Some (s', out)"
    and D: "D = objs_of s (dest_ports s from (dst_mac frame) (known_after t1 t2 from frame s))"
  shows "(out = [] \<and> queued_to D frame s s') \<or>
     (\<exists>n. D = {n} \<and> out = [(n, frame)] \<and> objs s' = objs s \<and> drops s' = drops s)"
proof -
  define s1 where "s1 = learn (src_mac frame) from t1 s"
  obtain s2 d where l: "lookup (dst_mac frame) t2 s1 = (s2, d)" by fastforce
  note lf = lookup_fields [OF l]
  have inv1: "sw_inv s1" using inv by (simp add: s1_def learn_inv)
  from inv1 l have inv2: "sw_inv s2" by (rule lookup_inv)
  have eq1: "ports s1 = ports s" "objs s1 = objs s" "drops s1 = drops s" "peers s1 = peers s"
    by (simp_all add: s1_def)
  have d: "d = known_after t1 t2 from frame s" using lf(5) by (simp add: s1_def known_after_learn)
  have objs1: "objs_of s1 P = objs_of s P" "objs_of s2 P = objs_of s P" for P
    by (simp_all add: objs_of_def eq1 lf)
  note fwd' = fwd [unfolded forward_eq [OF len] Let_def, folded s1_def]
  have eq2: "ports s2 = ports s" "objs s2 = objs s" "drops s2 = drops s" "peers s2 = peers s"
    by (simp_all add: lf eq1)
  show ?thesis
  proof (cases "is_multicast (dst_mac frame)")
    case True
    with fwd' have "flood from frame s1 = Some (s', out)" by simp
    moreover from True have "D = objs_of s1 (fst ` set (ports s1) - {from})"
      by (simp add: D dest_ports_def objs1 eq1)
    ultimately show ?thesis using flood_delivers [OF inv1] eq1 by (intro delivers_shift)
  next
    case uni: False
    show ?thesis
    proof (cases d)
      case None
      with uni fwd' l have "flood from frame s2 = Some (s', out)" by simp
      moreover from None uni have "D = objs_of s2 (fst ` set (ports s2) - {from})"
        by (simp add: D dest_ports_def objs1 eq2 flip: d)
      ultimately show ?thesis using flood_delivers [OF inv2] eq2 by (intro delivers_shift)
    next
      case (Some p)
      show ?thesis
      proof (cases "p = from")
        case True
        with uni Some fwd' l have "s' = s2" "out = []" by simp_all
        moreover have "D = {}" using uni Some True by (auto simp: D dest_ports_def objs_of_def simp flip: d)
        ultimately show ?thesis by (simp add: queued_to_def eq2)
      next
        case False
        with uni Some fwd' l have "emit p frame s2 = Some (s', out)" by simp
        moreover have "{p} \<inter> fst ` set (ports s) - {from} = {p} \<inter> fst ` set (ports s)"
          using False by auto
        then have "D = objs_of s2 ({p} \<inter> fst ` set (ports s2))"
          using uni Some by (simp add: D dest_ports_def objs1 eq2 flip: d)
        ultimately show ?thesis using emit_delivers [OF inv2] eq2 by (intro delivers_shift)
      qed
    qed
  qed
qed

section \<open>Learning and forgetting\<close>

lemma forward_macs:
  assumes "forward t1 t2 from frame s = Some (s', out)" "14 \<le> length frame"
    and "\<not> is_multicast (src_mac frame)" "t2 - t1 \<le> mac_ttl"
  shows "macs s' (src_mac frame) = Some \<lparr>e_port = from, e_seen = t1\<rparr>" and "ports s' = ports s"
proof -
  define s1 where "s1 = learn (src_mac frame) from t1 s"
  obtain s2 d where l: "lookup (dst_mac frame) t2 s1 = (s2, d)" by fastforce
  have m1: "macs s1 (src_mac frame) = Some \<lparr>e_port = from, e_seen = t1\<rparr>"
    using assms(3) by (simp add: s1_def learn_macs)
  with assms(4) l have m2: "macs s2 (src_mac frame) = Some \<lparr>e_port = from, e_seen = t1\<rparr>"
    by (auto simp: lookup_def split: option.splits if_splits)
  have keep: "macs t' = macs t \<and> ports t' = ports t" if "post_all frame ns t = Some t'" for ns t t'
    using that by (induction ns arbitrary: t)
      (auto simp: post_def Let_def clone_frame_def split: bind_splits if_splits)
  have fl: "macs t' = macs t \<and> ports t' = ports t" if "flood from frame t = Some (t', out)" for t t'
    using that keep by (auto simp: flood_def Let_def split: list.splits simp del: post_all.simps)
  have em: "macs t' = macs t \<and> ports t' = ports t" if "emit q frame t = Some (t', out)" for q t t'
    using that by (auto simp: emit_def post_def Let_def clone_frame_def split: option.splits if_splits bind_splits)
  from assms(1) [unfolded forward_eq [OF assms(2)] Let_def, folded s1_def] l m1 m2 fl em lookup_fields(1) [OF l]
  show "macs s' (src_mac frame) = Some \<lparr>e_port = from, e_seen = t1\<rparr>" "ports s' = ports s"
    by (fastforce simp: s1_def split: if_splits option.splits)+
qed

lemma remove_port_effect:
  assumes inv: "sw_inv s" and r: "remove_port p s = Some s'"
  shows "ports s' = filter (\<lambda>x. fst x \<noteq> p) (ports s)"
    and "macs s' m = (case macs s m of Some e \<Rightarrow> if e_port e = p then None else Some e | None \<Rightarrow> None)"
    and "(q, n) \<in> set (ports s') \<Longrightarrow> objs s' ! n = objs s ! n"
proof -
  have "\<not> p_done (objs s ! n)" if "map_of (ports s) p = Some n" for n
    using inv map_of_SomeD [OF that] by (auto simp: sw_inv_def entry_ok_def)
  with r have eq: "ports s' = AList.delete p (ports s)" "macs s' = forget p (macs s)"
      and os: "objs s' = (case map_of (ports s) p of None \<Rightarrow> objs s
                 | Some n \<Rightarrow> (objs s)[n := (objs s ! n)\<lparr>p_done := True\<rparr>])"
    by (cases "map_of (ports s) p";
        auto simp: remove_port_def delete_absent map_of_eq_None_iff [THEN iffD1] split: if_splits)+
  then show "ports s' = filter (\<lambda>x. fst x \<noteq> p) (ports s)"
    and "macs s' m = (case macs s m of Some e \<Rightarrow> if e_port e = p then None else Some e | None \<Rightarrow> None)"
    by (auto simp: delete_eq_filter forget_def split: option.splits)
  assume "(q, n) \<in> set (ports s')"
  then have "(q, n) \<in> set (ports s)" "q \<noteq> p" by (auto simp: eq delete_eq_filter)
  then have "map_of (ports s) p \<noteq> Some n"
    using ports_obj_unique [OF inv, of "(q, n)" "(p, n)"] by (auto dest: map_of_SomeD)
  then show "objs s' ! n = objs s ! n" by (auto simp: os split: option.splits)
qed

lemma find_map_int: "find P (map int [0..<k]) =
    (if \<exists>i<k. P (int i) then Some (int (LEAST i. P (int i))) else None)"
proof (induction k)
  case (Suc k)
  have step: "find P (map int [0..<Suc k]) =
      (case find P (map int [0..<k]) of Some x \<Rightarrow> Some x | None \<Rightarrow> if P (int k) then Some (int k) else None)"
  proof -
    have "find P (xs @ [y]) = (case find P xs of Some x \<Rightarrow> Some x | None \<Rightarrow> if P y then Some y else None)" for xs y
      by (induction xs) auto
    then show ?thesis by simp
  qed
  show ?case
  proof (cases "\<exists>i<k. P (int i)")
    case True
    with Suc step show ?thesis by (auto simp: less_Suc_eq)
  next
    case False
    then have "P (int k) \<Longrightarrow> (LEAST i. P (int i)) = k"
      by (intro Least_equality) (auto simp: not_less [symmetric])
    with False Suc step show ?thesis by (auto simp: less_Suc_eq)
  qed
qed simp

section \<open>Example frames\<close>

definition eth :: "mac \<Rightarrow> mac \<Rightarrow> frame" where
  "eth dst src = mac_bytes dst @ mac_bytes src @ [0x08, 0x00]"

lemma eth_simps [simp]: "length (eth d s) = 14" "src_mac (eth d s) = s" "dst_mac (eth d s) = d"
  by (simp_all add: eth_def src_mac_def dst_mac_def)

definition guest_a :: mac where "guest_a = MAC 2 0 0 0 0 0xA"
definition guest_b :: mac where "guest_b = MAC 2 0 0 0 0 0xB"
definition bcast :: mac where "bcast = MAC 255 255 255 255 255 255"

lemma example_macs [simp]:
  "\<not> is_multicast guest_a" "\<not> is_multicast guest_b" "is_multicast bcast" "guest_a \<noteq> guest_b" "guest_b \<noteq> guest_a"
  by (simp_all add: is_multicast_def guest_a_def guest_b_def bcast_def)

text \<open>A hub with its uplink, its guest and one peer wire.\<close>

definition hub0 :: switch where
  "hub0 = fst (add_peer 2 (add_port local_port 1 (add_port uplink 0 new_switch)))"

lemma hub0_simp: "hub0 = \<lparr>macs = Map.empty, ports = [(-1, 0), (-2, 1), (0, 2)],
    objs = [new_port (-1) 0, new_port (-2) 1, new_port 0 2], drops = 0, peers = 1\<rparr>"
  by (simp add: hub0_def add_peer_def add_port_def new_switch_def uplink_def local_port_def max_peers_def upt_rec)

lemma hub0_reachable: "sw_reachable hub0"
  unfolding hub0_def
  by (intro sw_next [OF _ step_add_peer] sw_next [OF _ step_add_port] sw_init) simp_all

section \<open>Properties of the switch\<close>

text \<open>C4: In every reachable switch a well-sized frame is forwarded without a panic, and it
  goes exactly where a learning bridge must send it: to the port a fresh table entry names,
  or to every other port when the destination is a group address or unknown, and never back
  to its source port. Either it is queued, once, at each of these ports that has room (the
  others count one drop each) and nothing is sent inline, or there is exactly one such port
  and the frame is sent to it directly.\<close>

theorem forward_spec:
  assumes "sw_reachable s" and "14 \<le> length frame" and "length frame \<le> link_frame_max"
  shows "\<exists>s' out. forward t1 t2 from frame s = Some (s', out) \<and>
     (let D = objs_of s (dest_ports s from (dst_mac frame) (known_after t1 t2 from frame s)) in
       (out = [] \<and> queued_to D frame s s') \<or>
       (\<exists>n. D = {n} \<and> out = [(n, frame)] \<and> objs s' = objs s \<and> drops s' = drops s))"
proof -
  from assms(1) have inv: "sw_inv s" by (rule sw_reachable_inv)
  obtain s' out where fwd: "forward t1 t2 from frame s = Some (s', out)"
    using forward_total [OF assms(3)] by fastforce
  from forward_delivers [OF inv assms(2) fwd refl] fwd show ?thesis
    unfolding Let_def by blast
qed

lemma forward_spec_witness:
  "\<exists>s' out. forward 0 0 0 (eth bcast guest_a) hub0 = Some (s', out) \<and>
     (let D = objs_of hub0 (dest_ports hub0 0 bcast (known_after 0 0 0 (eth bcast guest_a) hub0)) in
       (out = [] \<and> queued_to D (eth bcast guest_a) hub0 s') \<or>
       (\<exists>n. D = {n} \<and> out = [(n, eth bcast guest_a)] \<and> objs s' = objs hub0 \<and> drops s' = drops hub0))"
  using forward_spec [OF hub0_reachable, of "eth bcast guest_a" 0 0 0] by (simp add: link_frame_max_def)

text \<open>C5: Whatever sequence of joins, leaves, forwards and writer steps the switch goes through:
  no two ports share a number or a port object, the counter \<open>peers\<close> that decides between
  inline and queued sends is the number of peer wires in the table, there are at most 32
  of them, no outbound queue exceeds its channel, no group address is learned, and removing
  a port never closes a channel twice.\<close>

theorem reachable_safe:
  assumes "sw_reachable s"
  shows "distinct (map fst (ports s)) \<and> distinct (map snd (ports s)) \<and>
     peers s = int (peer_count (ports s)) \<and> peers s \<le> int max_peers \<and>
     (\<forall>pt \<in> set (objs s). length (p_out pt) \<le> out_queue) \<and>
     (\<forall>m e. macs s m = Some e \<longrightarrow> \<not> is_multicast m) \<and>
     remove_port p s \<noteq> None"
proof -
  from assms have inv: "sw_inv s" by (rule sw_reachable_inv)
  let ?F = "filter (\<lambda>x. 0 \<le> fst x) (ports s)"
  have "fst ` set ?F \<subseteq> int ` {..<max_peers}"
  proof
    fix x assume "x \<in> fst ` set ?F"
    with inv have "0 \<le> x" "x < int max_peers" by (auto simp: sw_inv_def entry_ok_def)
    then show "x \<in> int ` {..<max_peers}" by (intro image_eqI [of _ _ "nat x"]) auto
  qed
  then have "card (fst ` set ?F) \<le> card (int ` {..<max_peers})" by (intro card_mono) auto
  also have "\<dots> = max_peers" by (simp add: card_image)
  finally have "card (fst ` set ?F) \<le> max_peers" .
  moreover have "distinct (map fst ?F)" using inv by (simp add: sw_inv_def distinct_map_filter)
  then have "card (set (map fst ?F)) = length (map fst ?F)" by (rule distinct_card)
  ultimately have "peer_count (ports s) \<le> max_peers" by (simp add: peer_count_def)
  with inv remove_port_total [OF inv, of p] show ?thesis by (simp add: sw_inv_def del: not_None_eq)
qed

lemma reachable_safe_witness:
  "sw_reachable hub0 \<and> peers hub0 = int (peer_count (ports hub0)) \<and> remove_port 0 hub0 \<noteq> None"
  using reachable_safe [OF hub0_reachable, of 0] hub0_reachable by blast

text \<open>C23: Learning works end to end: once a frame with unicast source \<open>m\<close> has come in on port
  \<open>p\<close>, a frame for \<open>m\<close> that arrives on another port within the 300 s lifetime reaches at most
  the object behind \<open>p\<close>: it is sent inline to nobody else and queued at nobody else.\<close>

theorem learned_unicast:
  assumes "sw_reachable s" and "14 \<le> length f1" and "14 \<le> length f2"
    and "length f1 \<le> link_frame_max"
    and "forward t1 t1' p f1 s = Some (s1, o1)"
    and "\<not> is_multicast (src_mac f1)" and "dst_mac f2 = src_mac f1" and "src_mac f2 \<noteq> src_mac f1"
    and "t1' - t1 \<le> mac_ttl" and "t2' - t1 \<le> mac_ttl"
    and "forward t2 t2' q f2 s1 = Some (s2, o2)"
    and "n < length (objs s1)" and "(p, n) \<notin> set (ports s)"
  shows "p_out (objs s2 ! n) = p_out (objs s1 ! n) \<and> (n, f2) \<notin> set o2"
proof -
  from assms have reach1: "sw_reachable s1" by (blast intro: sw_next step_forward)
  note m = forward_macs [OF assms(5,2,6,9)]
  have known: "known_after t2 t2' q f2 s1 = Some p"
    using m(1) assms by (simp add: known_after_def fresh_port_def)
  obtain D where D: "D = objs_of s1 (dest_ports s1 q (dst_mac f2) (known_after t2 t2' q f2 s1))"
    by blast
  have notin: "n \<notin> D"
    using assms(6,7,13) m(2) by (simp add: D known objs_of_def dest_ports_def)
  from forward_delivers [OF sw_reachable_inv [OF reach1] assms(3,11) D]
  show ?thesis
  proof
    assume "o2 = [] \<and> queued_to D f2 s1 s2"
    with notin assms(12) show ?thesis by (simp add: queued_to_def)
  next
    assume "\<exists>n. D = {n} \<and> o2 = [(n, f2)] \<and> objs s2 = objs s1 \<and> drops s2 = drops s1"
    with notin show ?thesis by auto
  qed
qed

lemma learned_unicast_witness:
  "\<exists>s1 o1 s2 o2. forward 0 0 0 (eth bcast guest_a) hub0 = Some (s1, o1) \<and>
     forward 0 0 (-2) (eth guest_a guest_b) s1 = Some (s2, o2) \<and>
     p_out (objs s2 ! 0) = p_out (objs s1 ! 0) \<and> (0, eth guest_a guest_b) \<notin> set o2"
proof -
  obtain s1 o1 where 1: "forward 0 0 0 (eth bcast guest_a) hub0 = Some (s1, o1)"
    using forward_total [of "eth bcast guest_a" 0 0 0 hub0] by (fastforce simp: link_frame_max_def)
  obtain s2 o2 where 2: "forward 0 0 (-2) (eth guest_a guest_b) s1 = Some (s2, o2)"
    using forward_total [of "eth guest_a guest_b" 0 0 "-2" s1] by (fastforce simp: link_frame_max_def)
  have len: "0 < length (objs s1)"
    using forward_delivers [OF sw_reachable_inv [OF hub0_reachable] _ 1 refl]
    by (auto simp: queued_to_def) (simp_all add: hub0_simp)
  have "p_out (objs s2 ! 0) = p_out (objs s1 ! 0) \<and> (0, eth guest_a guest_b) \<notin> set o2"
    by (rule learned_unicast [OF hub0_reachable _ _ _ 1 _ _ _ _ _ 2 len])
      (simp_all add: link_frame_max_def mac_ttl_def hub0_simp)
  with 1 2 show ?thesis by blast
qed

text \<open>A peer that joins gets the lowest peer number not in use, as a fresh open port with an
  empty queue; the join is refused, with the switch unchanged, exactly when all 32 peer
  numbers are taken.\<close>

theorem add_peer_spec:
  "(case add_peer snk s of
      (s', Some p) \<Rightarrow> 0 \<le> p \<and> p < int max_peers \<and> map_of (ports s) p = None \<and>
         (\<forall>q. 0 \<le> q \<and> q < p \<longrightarrow> map_of (ports s) q \<noteq> None) \<and>
         map_of (ports s') p = Some (length (objs s)) \<and> objs s' = objs s @ [new_port p snk] \<and>
         peers s' = peers s + 1 \<and> macs s' = macs s
    | (s', None) \<Rightarrow> s' = s \<and> (\<forall>q. 0 \<le> q \<and> q < int max_peers \<longrightarrow> map_of (ports s) q \<noteq> None))"
proof (cases "\<exists>i<max_peers. map_of (ports s) (int i) = None")
  case True
  define l where "l = (LEAST i. map_of (ports s) (int i) = None)"
  from True obtain i where i: "i < max_peers" "map_of (ports s) (int i) = None" by blast
  then have l: "map_of (ports s) (int l) = None" "l < max_peers"
    unfolding l_def by (auto intro: LeastI le_less_trans [OF Least_le])
  have least: "map_of (ports s) q \<noteq> None" if "0 \<le> q" "q < int l" for q
    using not_less_Least [of "nat q" "\<lambda>i. map_of (ports s) (int i) = None"] that
    unfolding l_def by auto
  have "add_peer snk s = ((add_port (int l) snk s)\<lparr>peers := peers s + 1\<rparr>, Some (int l))"
    using True by (simp add: add_peer_def find_map_int l_def)
  with l least show ?thesis
    by (auto simp: add_port_def update_conv')
next
  case False
  then have "find (\<lambda>p. map_of (ports s) p = None) (map int [0..<max_peers]) = None"
    by (simp add: find_map_int)
  then have "add_peer snk s = (s, None)" by (simp add: add_peer_def)
  moreover have "map_of (ports s) q \<noteq> None" if "0 \<le> q" "q < int max_peers" for q
    using False that by (auto dest: spec [of _ "nat q"])
  ultimately show ?thesis by simp
qed

lemma add_peer_spec_witness: "add_peer 7 hub0 = (hub0\<lparr>ports := ports hub0 @ [(1, 3)],
    objs := objs hub0 @ [new_port 1 7], peers := 2\<rparr>, Some 1)"
  using add_peer_spec [where snk = 7 and s = hub0]
  by (simp add: hub0_simp add_peer_def add_port_def max_peers_def upt_rec)

text \<open>Removing a port drops its table entry and every address learned on it, and nothing
  else: the other ports keep their objects and queues, and addresses learned elsewhere stay.\<close>

theorem remove_port_spec:
  assumes "sw_reachable s"
  shows "\<exists>s'. remove_port p s = Some s' \<and> ports s' = filter (\<lambda>x. fst x \<noteq> p) (ports s) \<and>
     (\<forall>m. macs s' m = (case macs s m of Some e \<Rightarrow> if e_port e = p then None else Some e | None \<Rightarrow> None)) \<and>
     (\<forall>q n. (q, n) \<in> set (ports s') \<longrightarrow> objs s' ! n = objs s ! n)"
proof -
  from assms have inv: "sw_inv s" by (rule sw_reachable_inv)
  then obtain s' where r: "remove_port p s = Some s'" using remove_port_total by blast
  from r remove_port_effect [OF inv r] show ?thesis by blast
qed

lemma remove_port_spec_witness:
  "\<exists>s'. remove_port 0 hub0 = Some s' \<and> ports s' = [(-1, 0), (-2, 1)]"
  using remove_port_spec [OF hub0_reachable, of 0] by (auto simp: hub0_simp)

section \<open>Two behaviours the comments do not promise\<close>

text \<open>A writer whose port was removed, but that still has a queued frame to send, evicts the
  next peer that was given the same number: its failed send removes the port by number, not
  by identity.\<close>

theorem stale_writer_evicts:
  assumes "sw_reachable s" and "map_of (ports s) p = Some n" and "0 \<le> p"
    and "p_out (objs s ! n) = f # fs"
    and "remove_port p s = Some s1" and "add_peer snk s1 = (s2, Some p)"
  shows "\<exists>s3. writer_fail n s2 = Some s3 \<and> map_of (ports s2) p \<noteq> None \<and> map_of (ports s3) p = None"
proof -
  from assms(1) have inv: "sw_inv s" by (rule sw_reachable_inv)
  from assms(2) have pn: "(p, n) \<in> set (ports s)" by (rule map_of_SomeD)
  then have n: "n < length (objs s)" "p_num (objs s ! n) = p"
    using inv by (auto simp: sw_inv_def entry_ok_def)
  from inv assms(5) have inv1: "sw_inv s1" by (rule remove_port_inv)
  have inv2: "sw_inv s2" using add_peer_inv [OF inv1, of snk] assms(6) by simp
  have os1: "objs s1 = (objs s)[n := (objs s ! n)\<lparr>p_done := True\<rparr>]"
    using assms(2,5) by (auto simp: remove_port_def split: if_splits)
  have s2: "objs s2 = objs s1 @ [new_port p snk]" "map_of (ports s2) p \<noteq> None"
    using assms(6) by (auto simp: add_peer_def add_port_def update_conv' split: option.splits)
  have obj: "objs s2 ! n = (objs s ! n)\<lparr>p_done := True\<rparr>"
    using n by (simp add: s2 os1 nth_append)
  let ?t = "s2\<lparr>objs := (objs s2)[n := (objs s2 ! n)\<lparr>p_out := fs, p_run := False\<rparr>]\<rparr>"
  have "writer_fail n s2 = remove_port p ?t"
    using assms(4) n by (simp add: writer_fail_def obj)
  moreover have inv_t: "sw_inv ?t"
    using inv2 sw_queue_le [OF inv n(1)] n assms(4) by (intro sw_inv_obj) (simp_all add: s2 os1 obj)
  then obtain s3 where "remove_port p ?t = Some s3" using remove_port_total by blast
  moreover from this have "map_of (ports s3) p = None"
    using remove_port_effect(1) [OF inv_t] by (auto simp: map_of_eq_None_iff)
  ultimately show ?thesis using s2 by simp
qed

text \<open>The frames of the example: one flooded while the peer is connected.\<close>

definition hub1 :: switch where
  "hub1 = (case forward 0 0 (-2) (eth bcast guest_b) hub0 of Some (s, _) \<Rightarrow> s | None \<Rightarrow> hub0)"

lemma hub1_simp: "hub1 = hub0\<lparr>macs := [guest_b \<mapsto> \<lparr>e_port = -2, e_seen = 0\<rparr>],
    objs := [(new_port (-1) 0)\<lparr>p_out := [eth bcast guest_b]\<rparr>, new_port (-2) 1,
      (new_port 0 2)\<lparr>p_out := [eth bcast guest_b]\<rparr>]\<rparr>"
  by (simp add: hub1_def hub0_simp forward_eq learn_def flood_def post_def clone_frame_def
      link_frame_max_def out_queue_def new_port_def)

lemma hub1_reachable: "sw_reachable hub1"
proof -
  obtain s out where *: "forward 0 0 (-2) (eth bcast guest_b) hub0 = Some (s, out)"
    using forward_total [of "eth bcast guest_b" 0 0 "-2" hub0] by (fastforce simp: link_frame_max_def)
  then have "sw_step hub0 s" by (intro step_forward) (simp_all add: link_frame_max_def)
  with * show ?thesis by (auto simp: hub1_def intro: sw_next hub0_reachable)
qed

lemma stale_writer_evicts_witness:
  "\<exists>s1 s2 s3. remove_port 0 hub1 = Some s1 \<and> add_peer 9 s1 = (s2, Some 0) \<and>
     writer_fail 2 s2 = Some s3 \<and> map_of (ports s2) 0 \<noteq> None \<and> map_of (ports s3) 0 = None"
proof -
  obtain s1 where 1: "remove_port 0 hub1 = Some s1"
    using remove_port_total [OF sw_reachable_inv [OF hub1_reachable], of 0] by blast
  then have p1: "ports s1 = [(-1, 0), (-2, 1)]"
    using remove_port_effect(1) [OF sw_reachable_inv [OF hub1_reachable] 1] by (simp add: hub1_simp hub0_simp)
  obtain s2 where 2: "add_peer 9 s1 = (s2, Some 0)"
    by (simp add: add_peer_def p1 max_peers_def upt_rec)
  have "\<exists>s3. writer_fail 2 s2 = Some s3 \<and> map_of (ports s2) 0 \<noteq> None \<and> map_of (ports s3) 0 = None"
    by (rule stale_writer_evicts [OF hub1_reachable _ _ _ 1 2, of 2 "eth bcast guest_b" "[]"])
      (simp_all add: hub1_simp hub0_simp)
  with 1 2 show ?thesis by blast
qed

text \<open>\<open>hub2\<close>: one frame for the guest is queued behind the switch, then the last peer leaves.\<close>

definition hub2 :: switch where
  "hub2 = \<lparr>macs = [guest_b \<mapsto> \<lparr>e_port = -2, e_seen = 0\<rparr>, guest_a \<mapsto> \<lparr>e_port = -1, e_seen = 0\<rparr>],
     ports = [(-1, 0), (-2, 1)],
     objs = [(new_port (-1) 0)\<lparr>p_out := [eth bcast guest_b]\<rparr>,
       (new_port (-2) 1)\<lparr>p_out := [eth guest_b guest_a]\<rparr>,
       (new_port 0 2)\<lparr>p_out := [eth bcast guest_b], p_done := True\<rparr>],
     drops = 0, peers = 0\<rparr>"

lemma hub2_steps:
  "Option.bind (forward 0 0 uplink (eth guest_b guest_a) hub1) (\<lambda>(s, out). remove_port 0 s) = Some hub2"
proof -
  have "forward 0 0 uplink (eth guest_b guest_a) hub1 = Some (hub1\<lparr>
      macs := [guest_b \<mapsto> \<lparr>e_port = -2, e_seen = 0\<rparr>, guest_a \<mapsto> \<lparr>e_port = -1, e_seen = 0\<rparr>],
      objs := [(new_port (-1) 0)\<lparr>p_out := [eth bcast guest_b]\<rparr>,
         (new_port (-2) 1)\<lparr>p_out := [eth guest_b guest_a]\<rparr>,
         (new_port 0 2)\<lparr>p_out := [eth bcast guest_b]\<rparr>]\<rparr>, [])"
    by (simp add: forward_eq hub1_simp hub0_simp learn_def lookup_def mac_ttl_def uplink_def emit_def post_def
        clone_frame_def link_frame_max_def out_queue_def new_port_def)
  moreover have "forget 0 [guest_b \<mapsto> \<lparr>e_port = -2, e_seen = 0\<rparr>, guest_a \<mapsto> \<lparr>e_port = -1, e_seen = 0\<rparr>]
      = [guest_b \<mapsto> \<lparr>e_port = -2, e_seen = 0\<rparr>, guest_a \<mapsto> \<lparr>e_port = -1, e_seen = 0\<rparr>]"
    by (auto simp: forget_def)
  ultimately show ?thesis
    by (simp add: remove_port_def hub1_simp hub0_simp hub2_def new_port_def)
qed

lemma hub2_reachable: "sw_reachable hub2"
proof -
  from hub2_steps obtain s out where 1: "forward 0 0 uplink (eth guest_b guest_a) hub1 = Some (s, out)"
    and 2: "remove_port 0 s = Some hub2" by (auto split: bind_splits)
  from 1 have "sw_step hub1 s" by (intro step_forward) (simp_all add: link_frame_max_def)
  with hub1_reachable have "sw_reachable s" by (rule sw_next)
  with 2 show ?thesis by (blast intro: sw_next step_remove)
qed

text \<open>Frames to one port can leave out of order: in a reachable switch whose last peer has just
  left, the next frame for the guest is sent inline while an earlier one still waits in the
  guest port's queue.\<close>

theorem inline_overtakes:
  "\<exists>s f1 f2. sw_reachable s \<and> f1 \<noteq> f2 \<and> map_of (ports s) local_port = Some 1 \<and>
     p_out (objs s ! 1) = [f1] \<and>
     (\<exists>s'. forward 0 0 uplink f2 s = Some (s', [(1, f2)]) \<and> p_out (objs s' ! 1) = [f1])"
proof -
  let ?f2 = "eth guest_b guest_a @ [1]"
  have [simp]: "src_mac ?f2 = guest_a" "dst_mac ?f2 = guest_b" "length ?f2 = 15"
    by (simp_all add: eth_def src_mac_def dst_mac_def)
  have "\<exists>s'. forward 0 0 uplink ?f2 hub2 = Some (s', [(1, ?f2)]) \<and> p_out (objs s' ! 1) = [eth guest_b guest_a]"
    by (simp add: forward_eq hub2_def learn_def lookup_def mac_ttl_def uplink_def emit_def)
  moreover have "eth guest_b guest_a \<noteq> ?f2" by simp
  moreover have "map_of (ports hub2) local_port = Some 1" "p_out (objs hub2 ! 1) = [eth guest_b guest_a]"
    by (simp_all add: hub2_def local_port_def)
  ultimately show ?thesis using hub2_reachable by blast
qed

end
