(* ===== verification/GoStd.thy ===== *)
theory GoStd
  imports Prelude
begin

text \<open>
  The parts of Go's standard library the program's logic rests on, as executable
  functions: \<^verbatim>\<open>strings\<close> (TrimSpace, Split, Cut, HasPrefix, Fields),
  \<^verbatim>\<open>strconv\<close> (Atoi, ParseUint, Itoa) and \<^verbatim>\<open>net\<close> (ParseIP, To4, ParseCIDR,
  ParseMAC, SplitHostPort and the String methods that are parsed back). A Go string is
  its list of bytes, as a \<open>char list\<close>; a nil \<^verbatim>\<open>net.IP\<close> is the empty list.
\<close>

section \<open>strings\<close>

definition has_prefix :: "string \<Rightarrow> string \<Rightarrow> bool" where
  "has_prefix s p \<longleftrightarrow> take (length p) s = p"

definition has_suffix :: "string \<Rightarrow> string \<Rightarrow> bool" where
  "has_suffix s p \<longleftrightarrow> length p \<le> length s \<and> drop (length s - length p) s = p"

definition cut_prefix :: "string \<Rightarrow> string \<Rightarrow> string option" where
  "cut_prefix s p = (if has_prefix s p then Some (drop (length p) s) else None)"

fun split_on :: "char \<Rightarrow> string \<Rightarrow> string list" where
  "split_on c [] = [[]]"
| "split_on c (x # xs) =
     (if x = c then [] # split_on c xs
      else (case split_on c xs of [] \<Rightarrow> [[x]] | p # ps \<Rightarrow> (x # p) # ps))"

text \<open>\<^verbatim>\<open>strings.Cut\<close> at the first occurrence of a one-byte separator.\<close>

definition cut_at :: "char \<Rightarrow> string \<Rightarrow> (string \<times> string) option" where
  "cut_at c s = (if c \<in> set s then Some (takeWhile (\<lambda>x. x \<noteq> c) s, tl (dropWhile (\<lambda>x. x \<noteq> c) s)) else None)"

text \<open>
  \<^verbatim>\<open>unicode.IsSpace\<close> in UTF-8: the six ASCII spaces and the byte sequences of the
  other White_Space code points. \<^verbatim>\<open>strings.TrimSpace\<close> strips them from both ends.
\<close>

definition ascii_spaces :: "char list" where
  "ascii_spaces = map char_of [9, 10, 11, 12, 13, 32 :: nat]"

definition space_runes :: "string list" where
  "space_runes =
     map (\<lambda>c. [c]) ascii_spaces
     @ map (map char_of) ([[0xC2, 0x85], [0xC2, 0xA0], [0xE1, 0x9A, 0x80]]
         @ map (\<lambda>x. [0xE2, 0x80, 0x80 + x]) [0..<11]
         @ [[0xE2, 0x80, 0xA8], [0xE2, 0x80, 0xA9], [0xE2, 0x80, 0xAF],
            [0xE2, 0x81, 0x9F], [0xE3, 0x80, 0x80 :: nat]])"

function trim_by :: "string list \<Rightarrow> string \<Rightarrow> string" where
  "trim_by R s = (case find (\<lambda>r. r \<noteq> [] \<and> take (length r) s = r) R of
      None \<Rightarrow> s | Some r \<Rightarrow> trim_by R (drop (length r) s))"
  by pat_completeness auto
termination
  by (relation "measure (\<lambda>(R, s). length s)")
    (auto simp: find_Some_iff intro!: diff_less dest: arg_cong [where f = length])

declare trim_by.simps [simp del]

definition trim_space :: "string \<Rightarrow> string" where
  "trim_space s = rev (trim_by (map rev space_runes) (rev (trim_by space_runes s)))"

text \<open>\<^verbatim>\<open>strings.Fields\<close>, for the ASCII text it is used on.\<close>

function str_fields :: "string \<Rightarrow> string list" where
  "str_fields [] = []"
| "str_fields (c # s) =
     (if c \<in> set ascii_spaces then str_fields s
      else (c # takeWhile (\<lambda>x. x \<notin> set ascii_spaces) s)
             # str_fields (dropWhile (\<lambda>x. x \<notin> set ascii_spaces) s))"
  by pat_completeness auto
termination
  by (relation "measure length") (auto simp: le_imp_less_Suc length_dropWhile_le)

section \<open>strconv\<close>

definition digit :: "char \<Rightarrow> nat option" where
  "digit c = (let n = of_char c :: nat in if 48 \<le> n \<and> n \<le> 57 then Some (n - 48) else None)"

fun digits_val :: "nat \<Rightarrow> string \<Rightarrow> nat option" where
  "digits_val a [] = Some a"
| "digits_val a (c # s) = (case digit c of None \<Rightarrow> None | Some d \<Rightarrow> digits_val (10 * a + d) s)"

definition parse_uint :: "string \<Rightarrow> nat option" where
  "parse_uint s = (if s = [] then None else digits_val 0 s)"

text \<open>\<^verbatim>\<open>strconv.ParseUint(s, 10, 16)\<close>: a value past 65535 is a range error.\<close>

definition parse_uint16 :: "string \<Rightarrow> nat option" where
  "parse_uint16 s = (case parse_uint s of None \<Rightarrow> None | Some n \<Rightarrow> if n > 65535 then None else Some n)"

text \<open>\<^verbatim>\<open>strconv.Atoi\<close> on a 64-bit platform: an optional sign, digits, int64 range.\<close>

definition atoi :: "string \<Rightarrow> int option" where
  "atoi s = (case s of
       [] \<Rightarrow> None
     | c # r \<Rightarrow>
         if c = CHR ''-'' then
           (case parse_uint r of None \<Rightarrow> None | Some n \<Rightarrow> if int n \<le> 2 ^ 63 then Some (- int n) else None)
         else
           (case parse_uint (if c = CHR ''+'' then r else s) of
              None \<Rightarrow> None | Some n \<Rightarrow> if int n < 2 ^ 63 then Some (int n) else None))"

definition digit_char :: "nat \<Rightarrow> char" where
  "digit_char d = char_of (48 + d)"

text \<open>\<^verbatim>\<open>strconv.Itoa\<close> on a natural number.\<close>

fun dec :: "nat \<Rightarrow> string" where
  "dec n = (if n < 10 then [digit_char n] else dec (n div 10) @ [digit_char (n mod 10)])"

declare dec.simps [simp del]

section \<open>net: addresses\<close>

definition v4_prefix :: bytes where
  "v4_prefix = replicate 10 0 @ [0xff, 0xff]"

text \<open>\<^verbatim>\<open>IP.To4\<close>: a 4-byte slice, or the tail of an IPv4-mapped 16-byte slice.\<close>

definition to4 :: "bytes \<Rightarrow> ip4 option" where
  "to4 ip = (if length ip = 4 then Some (ip4_of ip)
             else if length ip = 16 \<and> take 12 ip = v4_prefix then Some (ip4_of (drop 12 ip))
             else None)"

definition parse_octet :: "string \<Rightarrow> byte option" where
  "parse_octet s = (case parse_uint s of
       None \<Rightarrow> None
     | Some n \<Rightarrow> if n > 255 \<or> (1 < length s \<and> hd s = CHR ''0'') then None else Some (of_nat n))"

definition parse_ipv4 :: "string \<Rightarrow> bytes option" where
  "parse_ipv4 s = (case split_on CHR ''.'' s of
       [a, b, c, d] \<Rightarrow> do {
         a \<leftarrow> parse_octet a; b \<leftarrow> parse_octet b; c \<leftarrow> parse_octet c; d \<leftarrow> parse_octet d;
         Some [a, b, c, d] }
     | _ \<Rightarrow> None)"

definition hex_digit :: "char \<Rightarrow> nat option" where
  "hex_digit c = (let n = of_char c :: nat in
     if 48 \<le> n \<and> n \<le> 57 then Some (n - 48)
     else if 97 \<le> n \<and> n \<le> 102 then Some (n - 87)
     else if 65 \<le> n \<and> n \<le> 70 then Some (n - 55)
     else None)"

definition is_hex :: "char \<Rightarrow> bool" where
  "is_hex c \<longleftrightarrow> hex_digit c \<noteq> None"

definition hex_val :: "string \<Rightarrow> nat" where
  "hex_val s = foldl (\<lambda>a c. 16 * a + (case hex_digit c of None \<Rightarrow> 0 | Some d \<Rightarrow> d)) 0 s"

lemma dropWhile_length_le: "x # r = dropWhile P s \<Longrightarrow> length r < length s"
  by (metis length_dropWhile_le length_Cons less_eq_Suc_le)

text \<open>
  The loop of \<^verbatim>\<open>netip.parseIPv6\<close>: \<open>ip\<close> is the address so far, \<open>ell\<close> the position
  of the ellipsis.
\<close>

function v6_loop :: "string \<Rightarrow> bytes \<Rightarrow> nat option \<Rightarrow> (string \<times> bytes \<times> nat option) option" where
  "v6_loop s ip ell =
     (if 16 \<le> length ip then Some (s, ip, ell)
      else let h = takeWhile is_hex s; r = dropWhile is_hex s in
        if h = [] \<or> 4 < length h then None
        else let ip' = ip @ [of_nat (hex_val h div 256), of_nat (hex_val h mod 256)] in
          case r of
            [] \<Rightarrow> Some ([], ip', ell)
          | c # r' \<Rightarrow>
              if c = CHR ''.'' then
                (if (ell = None \<and> length ip \<noteq> 12) \<or> 16 < length ip + 4 then None
                 else map_option (\<lambda>v. ([], ip @ v, ell)) (parse_ipv4 s))
              else if c \<noteq> CHR '':'' then None
              else (case r' of
                  [] \<Rightarrow> None
                | c' # r'' \<Rightarrow>
                    if c' = CHR '':'' then
                      (if ell \<noteq> None then None
                       else if r'' = [] then Some ([], ip', Some (length ip'))
                       else v6_loop r'' ip' (Some (length ip')))
                    else v6_loop r' ip' ell))"
  by pat_completeness auto

termination
  by (relation "measure (\<lambda>(s, ip, ell). length s)") (auto dest: dropWhile_length_le)

declare v6_loop.simps [simp del]

definition parse_ipv6 :: "string \<Rightarrow> bytes option" where
  "parse_ipv6 s =
     (let lead = has_prefix s ''::''; s1 = (if lead then drop 2 s else s) in
      if lead \<and> s1 = [] then Some (replicate 16 0)
      else (case v6_loop s1 [] (if lead then Some 0 else None) of
          None \<Rightarrow> None
        | Some (rest, ip, ell) \<Rightarrow>
            if rest \<noteq> [] then None
            else if length ip < 16 then
              (case ell of None \<Rightarrow> None
               | Some e \<Rightarrow> Some (take e ip @ replicate (16 - length ip) 0 @ drop e ip))
            else if ell \<noteq> None then None else Some ip))"

text \<open>
  \<^verbatim>\<open>netip.ParseAddr\<close> without a zone, with the flag that the text was dotted decimal;
  \<^verbatim>\<open>net.ParseIP\<close> returns the 16-byte form, nil (here the empty list) on failure.
\<close>

definition parse_addr :: "string \<Rightarrow> (bool \<times> bytes) option" where
  "parse_addr s = (case find (\<lambda>c. c \<in> {CHR ''.'', CHR '':'', CHR ''%''}) s of
       None \<Rightarrow> None
     | Some c \<Rightarrow>
         if c = CHR ''.'' then map_option (\<lambda>v. (True, v4_prefix @ v)) (parse_ipv4 s)
         else if c = CHR '':'' \<and> CHR ''%'' \<notin> set s then map_option (\<lambda>v. (False, v)) (parse_ipv6 s)
         else None)"

definition parse_ip :: "string \<Rightarrow> bytes" where
  "parse_ip s = (case parse_addr s of None \<Rightarrow> [] | Some (_, ip) \<Rightarrow> ip)"

text \<open>\<^verbatim>\<open>net.IP.String\<close> of an IPv4 address.\<close>

definition ip4_string :: "ip4 \<Rightarrow> string" where
  "ip4_string a = (case a of IP4 a b c d \<Rightarrow>
     dec (unat a) @ ''.'' @ dec (unat b) @ ''.'' @ dec (unat c) @ ''.'' @ dec (unat d))"

record ipnet =
  net_ip :: bytes
  net_mask :: bytes

text \<open>\<^verbatim>\<open>net.CIDRMask(n, 8 * l)\<close>.\<close>

fun mask_bytes :: "nat \<Rightarrow> nat \<Rightarrow> bytes" where
  "mask_bytes 0 n = []"
| "mask_bytes (Suc l) n =
     (if 8 \<le> n then 0xff # mask_bytes l (n - 8) else (NOT (drop_bit n 0xff)) # mask_bytes l 0)"

definition parse_cidr :: "string \<Rightarrow> ipnet option" where
  "parse_cidr s = (case cut_at CHR ''/'' s of
       None \<Rightarrow> None
     | Some (addr, bits) \<Rightarrow>
         (case (parse_addr addr, parse_uint bits) of
            (Some (is4, ip), Some n) \<Rightarrow>
              (let l = (if is4 then 4 else 16);
                   ip' = (if is4 then drop 12 ip else ip) in
               if n > 8 * l then None
               else Some \<lparr>net_ip = map2 (AND) ip' (mask_bytes l n), net_mask = mask_bytes l n\<rparr>)
          | _ \<Rightarrow> None))"

section \<open>net: hardware addresses and host:port\<close>

definition hex_char :: "nat \<Rightarrow> char" where
  "hex_char d = char_of (if d < 10 then 48 + d else 87 + d)"

text \<open>\<^verbatim>\<open>%02x\<close> and \<^verbatim>\<open>HardwareAddr.String\<close>.\<close>

definition hex2 :: "byte \<Rightarrow> string" where
  "hex2 b = [hex_char (unat b div 16), hex_char (unat b mod 16)]"

fun join_with :: "string \<Rightarrow> string list \<Rightarrow> string" where
  "join_with sep [] = []"
| "join_with sep [x] = x"
| "join_with sep (x # y # ys) = x @ sep @ join_with sep (y # ys)"

definition hw_string :: "bytes \<Rightarrow> string" where
  "hw_string bs = join_with '':'' (map hex2 bs)"

definition xtoi2 :: "string \<Rightarrow> byte option" where
  "xtoi2 s = (case s of [a, b] \<Rightarrow>
       (case (hex_digit a, hex_digit b) of
          (Some x, Some y) \<Rightarrow> Some (of_nat (16 * x + y)) | _ \<Rightarrow> None)
     | _ \<Rightarrow> None)"

text \<open>
  \<^verbatim>\<open>net.ParseMAC\<close>: groups of two hex digits separated by the colon or hyphen at
  index 2, or groups of four separated by the dot at index 4; 6, 8 or 20 bytes.
\<close>

fun all_some :: "'a option list \<Rightarrow> 'a list option" where
  "all_some [] = Some []"
| "all_some (None # xs) = None"
| "all_some (Some x # xs) = map_option (Cons x) (all_some xs)"

definition parse_mac :: "string \<Rightarrow> bytes option" where
  "parse_mac s =
     (if length s < 14 then None
      else let hw =
        (if s ! 2 = CHR '':'' \<or> s ! 2 = CHR ''-'' then all_some (map xtoi2 (split_on (s ! 2) s))
         else if s ! 4 = CHR ''.'' then
           map_option concat (all_some (map (\<lambda>g.
              if length g = 4 then all_some [xtoi2 (take 2 g), xtoi2 (drop 2 g)] else None)
             (split_on CHR ''.'' s)))
         else None) in
        case hw of None \<Rightarrow> None | Some bs \<Rightarrow> if length bs \<in> {6, 8, 20} then Some bs else None)"

text \<open>\<^verbatim>\<open>net.SplitHostPort\<close>.\<close>

definition split_host_port :: "string \<Rightarrow> (string \<times> string) option" where
  "split_host_port s =
     (if CHR '':'' \<notin> set s then None
      else let port = rev (takeWhile (\<lambda>c. c \<noteq> CHR '':'') (rev s)); i = length s - length port - 1 in
        if hd s = CHR ''['' then
          (if CHR '']'' \<notin> set s then None
           else let e = length (takeWhile (\<lambda>c. c \<noteq> CHR '']'') s) in
             if e + 1 \<noteq> i then None
             else if CHR ''['' \<in> set (drop 1 s) \<or> CHR '']'' \<in> set (drop (e + 1) s) then None
             else Some (take (e - 1) (drop 1 s), port))
        else if CHR '':'' \<in> set (take i s) \<or> CHR ''['' \<in> set s \<or> CHR '']'' \<in> set s then None
        else Some (take i s, port))"

section \<open>path/filepath\<close>

text \<open>
  \<^verbatim>\<open>filepath.Clean\<close> on Unix: the stack holds the elements kept so far, last first.
\<close>

fun clean_elems :: "bool \<Rightarrow> string list \<Rightarrow> string list \<Rightarrow> string list" where
  "clean_elems rooted [] stack = rev stack"
| "clean_elems rooted (e # es) stack =
     (if e = '''' \<or> e = ''.'' then clean_elems rooted es stack
      else if e = ''..'' then
        (case stack of
           [] \<Rightarrow> clean_elems rooted es (if rooted then [] else [e])
         | x # xs \<Rightarrow> if x = ''..'' then clean_elems rooted es (e # stack) else clean_elems rooted es xs)
      else clean_elems rooted es (e # stack))"

definition path_clean :: "string \<Rightarrow> string" where
  "path_clean p = (
     let rooted = has_prefix p ''/'';
         body = join_with ''/'' (clean_elems rooted (split_on CHR ''/'' p) []) in
     if rooted then CHR ''/'' # body else if body = '''' then ''.'' else body)"

definition path_join :: "string \<Rightarrow> string \<Rightarrow> string" where
  "path_join a b =
     (if a = '''' \<and> b = '''' then '''' else if a = '''' then path_clean b else path_clean (a @ ''/'' @ b))"

section \<open>Splitting and joining\<close>

lemma split_on_none: "c \<notin> set xs \<Longrightarrow> split_on c xs = [xs]"
  by (induction xs) auto

lemma split_on_cons: "c \<notin> set xs \<Longrightarrow> split_on c (xs @ c # ys) = xs # split_on c ys"
  by (induction xs) auto

lemma split_on_pieces: "p \<in> set (split_on c s) \<Longrightarrow> c \<notin> set p"
  by (induction s arbitrary: p) (auto split: list.splits if_splits)

lemma split_on_nonempty [simp]: "split_on c s \<noteq> []"
  by (induction s) (auto split: list.splits)

section \<open>Decimal round trip\<close>

lemma digit_digit_char [simp]: "d < 10 \<Longrightarrow> digit (digit_char d) = Some d"
  by (simp add: digit_def digit_char_def)

lemma digits_val_append:
  "digits_val a (s @ t) = Option.bind (digits_val a s) (\<lambda>b. digits_val b t)"
  by (induction s arbitrary: a) (auto split: option.splits)

lemma dec_nonempty [simp]: "dec n \<noteq> []"
  by (subst dec.simps) simp

lemma digits_val_dec: "\<exists>k. digits_val a (dec n) = Some (a * 10 ^ k + n)"
proof (induction n arbitrary: a rule: dec.induct)
  case (1 n)
  show ?case
  proof (cases "n < 10")
    case True
    then show ?thesis by (subst dec.simps) (auto intro!: exI [of _ 1])
  next
    case False
    with 1 obtain k where "digits_val a (dec (n div 10)) = Some (a * 10 ^ k + n div 10)" by blast
    with False show ?thesis
      by (subst dec.simps) (auto simp: digits_val_append algebra_simps intro!: exI [of _ "Suc k"])
  qed
qed

lemma parse_uint_dec [simp]: "parse_uint (dec n) = Some n"
  using digits_val_dec [of 0 n] by (auto simp: parse_uint_def)

lemma dec_digits: "c \<in> set (dec n) \<Longrightarrow> \<exists>d<10. c = digit_char d"
proof (induction n rule: dec.induct)
  case (1 n)
  then show ?case
    by (cases "n < 10") (auto simp: dec.simps [of n] intro: exI [of _ "n mod 10"])
qed

lemma of_char_digit_char: "d < 10 \<Longrightarrow> (of_char (digit_char d) :: nat) = 48 + d"
  by (simp add: digit_char_def)

lemma dec_not_in:
  assumes "(of_char c :: nat) < 48 \<or> 57 < (of_char c :: nat)"
  shows "c \<notin> set (dec n)"
proof
  assume "c \<in> set (dec n)"
  then obtain d where "d < 10" "c = digit_char d" using dec_digits by blast
  with assms show False by (auto simp: of_char_digit_char)
qed

lemma dec_not_special [simp]:
  "CHR ''.'' \<notin> set (dec n)" "CHR '':'' \<notin> set (dec n)" "CHR ''%'' \<notin> set (dec n)"
  by (rule dec_not_in, simp)+

lemma hd_dec: "0 < n \<Longrightarrow> hd (dec n) \<noteq> CHR ''0''"
proof (induction n rule: dec.induct)
  case (1 n)
  show ?case
  proof (cases "n < 10")
    case True
    have "(of_char (digit_char n) :: nat) \<noteq> of_char (CHR ''0'')"
      using 1 True by (simp add: of_char_digit_char)
    with True show ?thesis by (auto simp: dec.simps [of n])
  next
    case False
    then have "hd (dec n) = hd (dec (n div 10))" by (simp add: dec.simps [of n])
    moreover from False have "0 < n div 10" by simp
    ultimately show ?thesis using 1 False by simp
  qed
qed

lemma length_dec_pos: "1 < length (dec n) \<Longrightarrow> 0 < n"
  by (rule ccontr) (simp add: dec.simps)

lemma parse_octet_dec [simp]: "parse_octet (dec (unat b)) = Some b"
proof -
  have "unat b \<le> 255" using byte_bound [of b] by simp
  moreover have "\<not> (1 < length (dec (unat b)) \<and> hd (dec (unat b)) = CHR ''0'')"
    using hd_dec length_dec_pos by blast
  ultimately show ?thesis by (auto simp: parse_octet_def)
qed

section \<open>Address round trips\<close>

lemma parse_ipv4_string [simp]: "parse_ipv4 (ip4_string a) = Some (ip4_bytes a)"
  by (cases a) (simp add: parse_ipv4_def ip4_string_def split_on_cons split_on_none)

lemma find_append_none: "find P xs = None \<Longrightarrow> find P (xs @ ys) = find P ys"
  by (induction xs) (auto split: if_splits)

lemma parse_ip_string [simp]: "parse_ip (ip4_string a) = v4_prefix @ ip4_bytes a"
proof -
  obtain x y z w where "a = IP4 x y z w" by (cases a)
  then obtain rest where a: "ip4_string a = dec (unat x) @ CHR ''.'' # rest"
    by (simp add: ip4_string_def)
  have "find (\<lambda>c. c \<in> {CHR ''.'', CHR '':'', CHR ''%''}) (dec (unat x)) = None"
    by (auto simp: find_None_iff)
  then have "find (\<lambda>c. c \<in> {CHR ''.'', CHR '':'', CHR ''%''}) (ip4_string a) = Some CHR ''.''"
    by (simp add: a find_append_none)
  then show ?thesis by (simp add: parse_ip_def parse_addr_def)
qed

lemma length_v4_prefix [simp]: "length v4_prefix = 12"
  by (simp add: v4_prefix_def)

lemma to4_mapped [simp]: "to4 (v4_prefix @ ip4_bytes a) = Some a"
  by (simp add: to4_def)

lemma to4_ip4_bytes [simp]: "to4 (ip4_bytes a) = Some a"
  by (simp add: to4_def)

lemma to4_nil [simp]: "to4 [] = None"
  by (simp add: to4_def)

section \<open>Hardware address round trip\<close>

lemma of_char_hex_char: "d < 16 \<Longrightarrow> (of_char (hex_char d) :: nat) = (if d < 10 then 48 + d else 87 + d)"
  by (simp add: hex_char_def)

lemma hex_digit_hex_char [simp]: "d < 16 \<Longrightarrow> hex_digit (hex_char d) = Some d"
  by (simp add: hex_digit_def of_char_hex_char)

lemma xtoi2_hex2 [simp]: "xtoi2 (hex2 b) = Some b"
proof -
  have "unat b div 16 < 16" using byte_bound [of b] by simp
  then show ?thesis by (simp add: xtoi2_def hex2_def)
qed

lemma hex_char_not_sep:
  assumes "d < 16" shows "hex_char d \<noteq> CHR '':''"
proof
  assume "hex_char d = CHR '':''"
  then have "(of_char (hex_char d) :: nat) = of_char (CHR '':'')" by simp
  with assms show False by (simp add: of_char_hex_char split: if_splits)
qed

lemma hex2_not_colon [simp]: "CHR '':'' \<notin> set (hex2 b)"
proof -
  have "unat b div 16 < 16" using byte_bound [of b] by simp
  then show ?thesis by (auto simp: hex2_def hex_char_not_sep dest: sym)
qed

lemma length_hex2 [simp]: "length (hex2 b) = 2"
  by (simp add: hex2_def)

lemma split_hw_string: "bs \<noteq> [] \<Longrightarrow> split_on CHR '':'' (hw_string bs) = map hex2 bs"
  unfolding hw_string_def
proof (induction bs rule: induct_list012)
  case (3 x y zs)
  then show ?case by (simp add: split_on_cons)
qed (simp_all add: split_on_none)

lemma all_some_map [simp]: "all_some (map (\<lambda>x. Some (f x)) xs) = Some (map f xs)"
  by (induction xs) simp_all

lemma parse_mac_string [simp]: "parse_mac (hw_string (mac_bytes m)) = Some (mac_bytes m)"
proof -
  obtain b rest where m: "mac_bytes m = b # rest" "length rest = 5" by (cases m) simp
  have len: "length (hw_string (mac_bytes m)) = 17"
    by (cases m) (simp add: hw_string_def)
  have "hw_string (mac_bytes m) ! 2 = CHR '':''"
    by (cases m) (simp add: hw_string_def hex2_def)
  moreover have "split_on CHR '':'' (hw_string (mac_bytes m)) = map hex2 (mac_bytes m)"
    by (rule split_hw_string) (simp add: m)
  moreover have "all_some (map (\<lambda>x. Some x) (mac_bytes m)) = Some (mac_bytes m)"
    using all_some_map [of "\<lambda>x. x"] by simp
  ultimately show ?thesis by (simp add: parse_mac_def len comp_def)
qed

section \<open>IPv4 networks\<close>

lemma length_mask_bytes [simp]: "length (mask_bytes l n) = l"
  by (induction l n rule: mask_bytes.induct) auto

lemma mask4: "n \<le> 32 \<Longrightarrow> be32 (mask_bytes 4 n) = Some (NOT (mask (32 - n)))"
proof -
  have "\<forall>n\<in>set [0..<33]. be32 (mask_bytes 4 n) = Some (NOT (mask (32 - n)))"
    by code_simp
  then show "n \<le> 32 \<Longrightarrow> ?thesis" by simp
qed

lemma parse_ipv4_length: "parse_ipv4 s = Some v \<Longrightarrow> length v = 4"
  by (auto simp: parse_ipv4_def split: list.splits bind_splits)

lemma parse_addr_v4: "parse_addr s = Some (True, ip) \<Longrightarrow> length (drop 12 ip) = 4"
  by (auto simp: parse_addr_def split: option.splits if_splits dest: parse_ipv4_length)

lemma parse_cidr_v4:
  assumes "parse_cidr s = Some subnet" "length (net_mask subnet) = 4"
  shows "\<exists>k x. be32 (net_mask subnet) = Some (NOT (mask k)) \<and> be32 (net_ip subnet) = Some (x AND NOT (mask k))
     \<and> length (net_ip subnet) = 4"
proof -
  obtain addr bits where cut: "cut_at CHR ''/'' s = Some (addr, bits)"
    using assms(1) by (auto simp: parse_cidr_def split: option.splits)
  obtain is4 ip where pa: "parse_addr addr = Some (is4, ip)"
    using assms(1) cut by (auto simp: parse_cidr_def split: option.splits)
  obtain n where pn: "parse_uint bits = Some n"
    using assms(1) cut pa by (auto simp: parse_cidr_def split: option.splits)
  have is4 using assms cut pa pn by (auto simp: parse_cidr_def Let_def split: if_splits)
  then have n: "n \<le> 32" and sub: "subnet = \<lparr>net_ip = map2 (AND) (drop 12 ip) (mask_bytes 4 n), net_mask = mask_bytes 4 n\<rparr>"
    using assms(1) cut pa pn by (auto simp: parse_cidr_def Let_def split: if_splits)
  from pa \<open>is4\<close> have "parse_addr addr = Some (True, ip)" by simp
  then have len: "length (drop 12 ip) = 4" by (rule parse_addr_v4)
  then obtain x where x: "be32 (drop 12 ip) = Some x" using be32_defined by blast
  have "be32 (net_ip subnet) = Some (x AND NOT (mask (32 - n)))"
    unfolding sub using be32_and [OF len _ x mask4 [OF n]] by simp
  moreover have "be32 (net_mask subnet) = Some (NOT (mask (32 - n)))"
    unfolding sub using mask4 [OF n] by simp
  moreover have "length (net_ip subnet) = 4" unfolding sub using len by simp
  ultimately show ?thesis by blast
qed

lemma to4_length4: "length xs = 4 \<Longrightarrow> to4 xs = Some (ip4_of xs)"
  by (simp add: to4_def)

text \<open>Membership in the IPv4 network a CIDR text names, and its last address.\<close>

definition in_subnet :: "ipnet \<Rightarrow> ip4 \<Rightarrow> bool" where
  "in_subnet net a \<longleftrightarrow> (case (be32 (net_ip net), be32 (net_mask net)) of
     (Some n, Some m) \<Rightarrow> ip4_u32 a AND m = n | _ \<Rightarrow> False)"

definition broadcast_of :: "ipnet \<Rightarrow> ip4" where
  "broadcast_of net = (case (be32 (net_ip net), be32 (net_mask net)) of
     (Some n, Some m) \<Rightarrow> u32_ip4 (n OR NOT m) | _ \<Rightarrow> IP4 0 0 0 0)"

end
