(* ===== verification/DhcpPool.thy ===== *)
theory DhcpPool
  imports GoStd "HOL-Library.AList"
begin

text \<open>
  The lease pool of \<^verbatim>\<open>internal/dhcp/dhcp.go\<close> (\<^verbatim>\<open>Pool\<close>, \<^verbatim>\<open>UsableLeases\<close>).
  Go's map \<^verbatim>\<open>assigned\<close> is an association list with distinct keys, and a map passed to
  \<^verbatim>\<open>Restore\<close> is the list of its entries in the order \<^verbatim>\<open>range\<close> visits them.
\<close>

section \<open>State and operations\<close>

record pool =
  base :: ip4
  psize :: int
  pnext :: int
  assigned :: "(mac \<times> ip4) list"
  order :: "mac list"

datatype pool_error = PoolExhausted int

definition new_pool :: "bytes \<Rightarrow> int \<Rightarrow> pool" where
  "new_pool start sz =
     \<lparr>base = (case to4 start of Some a \<Rightarrow> a | None \<Rightarrow> IP4 0 0 0 0), psize = sz, pnext = 0,
      assigned = [], order = []\<rparr>"

text \<open>Addition on the whole 32-bit address, with Go's conversion of the offset to \<^verbatim>\<open>uint32\<close>.\<close>

definition lease_addr :: "pool \<Rightarrow> int \<Rightarrow> ip4" where
  "lease_addr p off = u32_ip4 (ip4_u32 (base p) + of_int off)"

text \<open>\<open>None\<close>: \<^verbatim>\<open>Uint32\<close> of the nil \<^verbatim>\<open>To4\<close> of an IPv6 network panics.\<close>

definition usable_leases :: "string \<Rightarrow> bytes \<Rightarrow> int \<Rightarrow> int option" where
  "usable_leases network start mx = (case to4 start of
       None \<Rightarrow> Some 0
     | Some start4 \<Rightarrow> (case parse_cidr network of
           None \<Rightarrow> Some 0
         | Some subnet \<Rightarrow> do {
             netAddr \<leftarrow> be32 (case to4 (net_ip subnet) of None \<Rightarrow> [] | Some a \<Rightarrow> ip4_bytes a);
             mask \<leftarrow> be32 (net_mask subnet);
             let broadcast = netAddr OR NOT mask;
             first \<leftarrow> be32 (ip4_bytes start4);
             if first < netAddr \<or> broadcast \<le> first then Some 0
             else let n = int (unat (broadcast - first)) in
               Some (if n > mx then mx else n) }))"

definition get_or_assign :: "bytes \<Rightarrow> pool \<Rightarrow> pool \<times> (pool_error + ip4)" where
  "get_or_assign hw p = (let key = mac_of hw in
     case map_of (assigned p) key of
       Some ip \<Rightarrow> (p, Inr ip)
     | None \<Rightarrow>
         if psize p \<le> pnext p then (p, Inl (PoolExhausted (psize p)))
         else let ip = lease_addr p (pnext p) in
           (p\<lparr>pnext := pnext p + 1, assigned := AList.update key ip (assigned p), order := order p @ [key]\<rparr>,
            Inr ip))"

definition restore_step :: "(mac \<times> ip4) list \<Rightarrow> int \<Rightarrow> pool \<Rightarrow> pool" where
  "restore_step leases off p = (case find (\<lambda>(m, a). a = lease_addr p off) leases of
       None \<Rightarrow> p
     | Some (m, a) \<Rightarrow>
         if map_of (assigned p) m = None
         then p\<lparr>assigned := AList.update m a (assigned p), order := order p @ [m]\<rparr>
         else p)"

definition restore :: "(mac \<times> ip4) list \<Rightarrow> pool \<Rightarrow> pool" where
  "restore leases p =
     (let p = fold (restore_step leases) (map int [0..<nat (psize p)]) p in
      p\<lparr>pnext := int (length (assigned p))\<rparr>)"

definition first_lease :: "pool \<Rightarrow> ip4 option" where
  "first_lease p = (case order p of
       [] \<Rightarrow> None
     | m # _ \<Rightarrow> Some (case map_of (assigned p) m of Some ip \<Rightarrow> ip | None \<Rightarrow> IP4 0 0 0 0))"

text \<open>\<^verbatim>\<open>Leases\<close>: the printed snapshot, MAC to IP.\<close>

definition leases :: "pool \<Rightarrow> (string \<times> string) list" where
  "leases p = map (\<lambda>(m, ip). (hw_string (mac_bytes m), ip4_string ip)) (assigned p)"

text \<open>The pool after a sequence of requests, by hardware address.\<close>

definition serve :: "bytes list \<Rightarrow> pool \<Rightarrow> pool" where
  "serve hws p = fold (\<lambda>hw p. fst (get_or_assign hw p)) hws p"

section \<open>Addresses of a pool\<close>

lemma lease_addr_inj:
  assumes "lease_addr p i = lease_addr p j" "0 \<le> i" "i < 2 ^ 32" "0 \<le> j" "j < 2 ^ 32"
  shows "i = j"
proof -
  from assms(1) have "(of_int i :: u32) = of_int j" by (simp add: lease_addr_def)
  then have "take_bit 32 i = take_bit 32 j" by (simp add: word_of_int_eq_iff)
  with assms show ?thesis by (simp add: take_bit_int_eq_self)
qed

lemma lease_addr_base: "base q = base p \<Longrightarrow> lease_addr q = lease_addr p"
  by (simp add: lease_addr_def fun_eq_iff)

lemma lease_addr_update [simp]:
  "lease_addr (p\<lparr>pnext := n\<rparr>) = lease_addr p"
  "lease_addr (p\<lparr>assigned := t\<rparr>) = lease_addr p"
  "lease_addr (p\<lparr>order := ms\<rparr>) = lease_addr p"
  by (simp_all add: lease_addr_def fun_eq_iff)

section \<open>The invariant of a pool that only assigns\<close>

text \<open>
  The \<open>k\<close>-th client to ask holds the \<open>k\<close>-th address: the table is the assignment order
  zipped with the first addresses of the pool.
\<close>

definition pool_inv :: "pool \<Rightarrow> bool" where
  "pool_inv p \<longleftrightarrow>
     distinct (order p) \<and>
     assigned p = zip (order p) (map (\<lambda>k. lease_addr p (int k)) [0..<length (order p)]) \<and>
     pnext p = int (length (order p)) \<and> length (order p) \<le> nat (psize p)"

lemma pool_inv_new: "pool_inv (new_pool start sz)"
  by (simp add: pool_inv_def new_pool_def)

lemma keys_zip [simp]: "map fst (zip xs (map f [0..<length xs])) = xs"
  by simp

lemma alist_update_fresh: "k \<notin> set (map fst al) \<Longrightarrow> AList.update k v al = al @ [(k, v)]"
  by (induction al) auto

lemma get_or_assign_frame:
  "base (fst (get_or_assign hw p)) = base p" "psize (fst (get_or_assign hw p)) = psize p"
  by (auto simp: get_or_assign_def Let_def split: option.splits)

lemma pool_inv_keys: "pool_inv p \<Longrightarrow> map fst (assigned p) = order p"
  by (simp add: pool_inv_def)

lemma get_or_assign_inv:
  assumes "pool_inv p" shows "pool_inv (fst (get_or_assign hw p))"
proof (cases "map_of (assigned p) (mac_of hw) = None \<and> \<not> psize p \<le> pnext p")
  case True
  let ?key = "mac_of hw"
  from True have "?key \<notin> fst ` set (assigned p)" by (simp add: map_of_eq_None_iff)
  moreover have keys: "fst ` set (assigned p) = set (order p)"
    using pool_inv_keys [OF assms] by (metis set_map)
  ultimately have new: "?key \<notin> set (map fst (assigned p))" "?key \<notin> set (order p)" by auto
  from True new have eq: "fst (get_or_assign hw p) =
      p\<lparr>pnext := pnext p + 1, assigned := assigned p @ [(?key, lease_addr p (pnext p))], order := order p @ [?key]\<rparr>"
    by (simp add: get_or_assign_def alist_update_fresh Let_def)
  show ?thesis
    using assms new True unfolding eq by (auto simp: pool_inv_def zip_append1 nth_append)
next
  case False
  then have "fst (get_or_assign hw p) = p"
    by (auto simp: get_or_assign_def Let_def split: option.splits)
  with assms show ?thesis by simp
qed

lemma serve_Nil [simp]: "serve [] p = p"
  by (simp add: serve_def)

lemma serve_Cons [simp]: "serve (hw # hws) p = serve hws (fst (get_or_assign hw p))"
  by (simp add: serve_def)

lemma serve_inv: "pool_inv p \<Longrightarrow> pool_inv (serve hws p)"
  by (induction hws arbitrary: p) (auto intro: get_or_assign_inv)

lemma serve_frame [simp]: "base (serve hws p) = base p" "psize (serve hws p) = psize p"
  by (induction hws arbitrary: p) (simp_all add: get_or_assign_frame)

lemma pool_inv_lookup:
  assumes "pool_inv p" "map_of (assigned p) m = Some a"
  shows "\<exists>k < length (order p). order p ! k = m \<and> a = lease_addr p (int k)"
proof -
  from assms have "(m, a) \<in> set (zip (order p) (map (\<lambda>k. lease_addr p (int k)) [0..<length (order p)]))"
    using map_of_SomeD by (metis pool_inv_def)
  then show ?thesis by (auto simp: in_set_zip)
qed

lemma pool_inv_nth:
  assumes "pool_inv p" "k < length (order p)"
  shows "map_of (assigned p) (order p ! k) = Some (lease_addr p (int k))"
proof -
  from assms have "distinct (map fst (assigned p))"
    by (simp add: pool_inv_keys) (simp add: pool_inv_def)
  moreover from assms have "(order p ! k, lease_addr p (int k)) \<in> set (assigned p)"
    by (force simp: pool_inv_def in_set_zip)
  ultimately show ?thesis by (simp add: map_of_eq_Some_iff)
qed

lemma pool_inv_unique:
  assumes "pool_inv p" "psize p \<le> 2 ^ 32"
    and "map_of (assigned p) m1 = Some a" "map_of (assigned p) m2 = Some a"
  shows "m1 = m2"
proof -
  obtain i j where "i < length (order p)" "order p ! i = m1" "a = lease_addr p (int i)"
      "j < length (order p)" "order p ! j = m2" "a = lease_addr p (int j)"
    using pool_inv_lookup [OF assms(1,3)] pool_inv_lookup [OF assms(1,4)] by blast
  moreover from this assms(1,2) have "int i < 2 ^ 32" "int j < 2 ^ 32"
    by (auto simp: pool_inv_def)
  ultimately show ?thesis using lease_addr_inj [of p "int i" "int j"] by auto
qed

text \<open>A lease, once given, is kept whatever requests follow.\<close>

lemma get_or_assign_keeps:
  "map_of (assigned p) m = Some a \<Longrightarrow> map_of (assigned (fst (get_or_assign hw p))) m = Some a"
  by (auto simp: get_or_assign_def Let_def update_conv' split: option.splits)

lemma serve_keeps: "map_of (assigned p) m = Some a \<Longrightarrow> map_of (assigned (serve hws p)) m = Some a"
  by (induction hws arbitrary: p) (auto intro: get_or_assign_keeps)

lemma get_or_assign_known:
  "map_of (assigned p) (mac_of hw) = Some a \<Longrightarrow> get_or_assign hw p = (p, Inr a)"
  by (simp add: get_or_assign_def)

lemma get_or_assign_Inr:
  "get_or_assign hw p = (p', Inr a) \<Longrightarrow> map_of (assigned p') (mac_of hw) = Some a"
  by (auto simp: get_or_assign_def Let_def update_conv' split: option.splits if_splits)

section \<open>Restoring a gossiped table\<close>

text \<open>The entry the walk finds at offset \<open>k\<close>, and the table it builds.\<close>

definition entry_at :: "pool \<Rightarrow> (mac \<times> ip4) list \<Rightarrow> nat \<Rightarrow> (mac \<times> ip4) option" where
  "entry_at p L k = find (\<lambda>(m, a). a = lease_addr p (int k)) L"

definition picks :: "pool \<Rightarrow> (mac \<times> ip4) list \<Rightarrow> nat \<Rightarrow> (mac \<times> ip4) list" where
  "picks p L n = List.map_filter (entry_at p L) [0..<n]"

lemma entry_at_Some: "entry_at p L k = Some (m, a) \<Longrightarrow> (m, a) \<in> set L \<and> a = lease_addr p (int k)"
  by (auto simp: entry_at_def find_Some_iff) (metis nth_mem)

lemma entry_at_None: "entry_at p L k = None \<Longrightarrow> (m, a) \<in> set L \<Longrightarrow> a \<noteq> lease_addr p (int k)"
  by (auto simp: entry_at_def find_None_iff)

lemma picks_Suc: "picks p L (Suc n) =
    picks p L n @ (case entry_at p L n of None \<Rightarrow> [] | Some e \<Rightarrow> [e])"
  by (simp add: picks_def List.map_filter_def split: option.split)

lemma set_picks: "(m, a) \<in> set (picks p L n) \<longleftrightarrow> (\<exists>k<n. entry_at p L k = Some (m, a))"
  by (induction n) (auto simp: picks_Suc less_Suc_eq picks_def [of _ _ 0] List.map_filter_def split: option.splits)

lemma picks_new_key:
  assumes "distinct (map fst L)" "n < 2 ^ 32" "entry_at p L n = Some (m, a)"
  shows "m \<notin> fst ` set (picks p L n)"
proof
  assume "m \<in> fst ` set (picks p L n)"
  then obtain b k where "k < n" "entry_at p L k = Some (m, b)" by (auto simp: set_picks)
  with entry_at_Some [of p L] assms(3) have "(m, b) \<in> set L" "b = lease_addr p (int k)"
      "(m, a) \<in> set L" "a = lease_addr p (int n)" by blast+
  with assms(1) have "lease_addr p (int k) = lease_addr p (int n)"
    by (metis eq_key_imp_eq_value)
  then have "int k = int n"
    using \<open>k < n\<close> assms(2) by (intro lease_addr_inj) auto
  with \<open>k < n\<close> show False by simp
qed

lemma restore_fold:
  assumes "distinct (map fst L)" "n \<le> 2 ^ 32" "assigned p = []" "order p = []"
  shows "fold (restore_step L) (map int [0..<n]) p =
     p\<lparr>assigned := picks p L n, order := map fst (picks p L n)\<rparr>"
  using assms(2)
proof (induction n)
  case 0
  with assms(3,4) show ?case by (simp add: picks_def List.map_filter_def)
next
  case (Suc n)
  let ?q = "p\<lparr>assigned := picks p L n, order := map fst (picks p L n)\<rparr>"
  have "fold (restore_step L) (map int [0..<Suc n]) p = restore_step L (int n) ?q"
    using Suc by simp
  also have "\<dots> = p\<lparr>assigned := picks p L (Suc n), order := map fst (picks p L (Suc n))\<rparr>"
  proof (cases "entry_at p L n")
    case None
    then show ?thesis by (simp add: restore_step_def picks_Suc entry_at_def)
  next
    case (Some e)
    obtain m a where e: "e = (m, a)" by fastforce
    have new: "m \<notin> fst ` set (picks p L n)"
      using picks_new_key [OF assms(1) _ Some [unfolded e]] Suc.prems by simp
    then have "map_of (picks p L n) m = None" by (simp add: map_of_eq_None_iff)
    with Some new show ?thesis
      by (simp add: restore_step_def picks_Suc entry_at_def e alist_update_fresh)
  qed
  finally show ?case .
qed

lemma restore_new:
  assumes "distinct (map fst L)" "sz \<le> 2 ^ 32"
  shows "restore L (new_pool start sz) =
    (let p = new_pool start sz; t = picks p L (nat sz) in
     p\<lparr>assigned := t, order := map fst t, pnext := int (length t)\<rparr>)"
proof -
  have "nat sz \<le> 2 ^ 32" using assms(2) by (simp add: nat_le_iff)
  from restore_fold [OF assms(1) this, of "new_pool start sz"] show ?thesis
    by (simp add: restore_def new_pool_def Let_def)
qed

lemma picks_snapshot:
  assumes inv: "pool_inv p0" and sz: "psize p0 \<le> 2 ^ 32" and "base p = base p0"
    and L: "set L = set (assigned p0)" and n: "length (order p0) \<le> n" "n \<le> nat (psize p0)"
  shows "picks p L n = assigned p0"
proof -
  let ?m = "length (order p0)"
  have addr: "lease_addr p = lease_addr p0" using assms(3) by (rule lease_addr_base)
  have e: "entry_at p L k = (if k < ?m then Some (order p0 ! k, lease_addr p0 (int k)) else None)"
    if "k < n" for k
  proof (cases "entry_at p L k")
    case None
    have "\<not> k < ?m"
    proof
      assume k: "k < ?m"
      then have "(order p0 ! k, lease_addr p0 (int k)) \<in> set L"
        using pool_inv_nth [OF inv k] L by (auto dest: map_of_SomeD)
      with entry_at_None [OF None] addr show False by auto
    qed
    with None show ?thesis by simp
  next
    case (Some x)
    obtain m a where x: "x = (m, a)" by fastforce
    with Some entry_at_Some [of p L k m a] addr L
    have ma: "(m, a) \<in> set (assigned p0)" "a = lease_addr p0 (int k)" by auto
    then obtain j where j: "j < ?m" "m = order p0 ! j" "a = lease_addr p0 (int j)"
      using inv by (auto simp: pool_inv_def in_set_zip)
    from inv sz j(1) that n have "int j < 2 ^ 32" "int k < 2 ^ 32" by (auto simp: pool_inv_def)
    with ma(2) j(3) have "j = k" using lease_addr_inj [of p0 "int j" "int k"] by auto
    with Some x j show ?thesis by simp
  qed
  have "picks p L k = map (\<lambda>k. (order p0 ! k, lease_addr p0 (int k))) [0..<min k ?m]" if "k \<le> n" for k
    using that
  proof (induction k)
    case (Suc k)
    then show ?case by (cases "k < ?m") (simp_all add: picks_Suc e min_absorb1 min_absorb2)
  qed (simp add: picks_def List.map_filter_def)
  from this [of n] n have "picks p L n = map (\<lambda>k. (order p0 ! k, lease_addr p0 (int k))) [0..<?m]"
    by (simp add: min_def)
  also have "\<dots> = zip (order p0) (map (\<lambda>k. lease_addr p0 (int k)) [0..<?m])"
    by (rule nth_equalityI) simp_all
  also have "\<dots> = assigned p0" using inv unfolding pool_inv_def by (elim conjE) (rule sym)
  finally show ?thesis .
qed

text \<open>Restoring a complete snapshot, in any order, into a pool with the same range rebuilds the pool.\<close>

lemma restore_snapshot:
  assumes inv: "pool_inv p0" and sz: "psize p0 \<le> 2 ^ 32"
    and new: "base (new_pool start (psize p0)) = base p0"
    and L: "set L = set (assigned p0)" "distinct (map fst L)"
  shows "restore L (new_pool start (psize p0)) = p0"
proof -
  have "picks (new_pool start (psize p0)) L (nat (psize p0)) = assigned p0"
    using inv by (intro picks_snapshot [OF inv sz new L(1)]) (auto simp: pool_inv_def)
  moreover have "map fst (assigned p0) = order p0" using inv by (rule pool_inv_keys)
  moreover have "pnext p0 = int (length (assigned p0))" using inv by (simp add: pool_inv_def)
  ultimately show ?thesis
    using new restore_new [OF L(2) sz, of start] by (simp add: new_pool_def Let_def)
qed

lemma usable_leases_subnet:
  assumes net: "parse_cidr network = Some subnet" "length (net_mask subnet) = 4"
    and start: "to4 start = Some a0"
    and n: "usable_leases network start mx = Some n" and k: "0 \<le> k" "k < n"
  shows "in_subnet subnet (lease_addr (new_pool start n) k) \<and>
     ip4_u32 a0 \<le> ip4_u32 (lease_addr (new_pool start n) k) \<and>
     ip4_u32 (lease_addr (new_pool start n) k) < ip4_u32 (broadcast_of subnet)"
proof -
  obtain j x where m: "be32 (net_mask subnet) = Some (NOT (mask j))"
    and b: "be32 (net_ip subnet) = Some (x AND NOT (mask j))" and l: "length (net_ip subnet) = 4"
    using parse_cidr_v4 [OF net] by blast
  let ?na = "x AND NOT (mask j)"
  have "to4 (net_ip subnet) = Some (ip4_of (net_ip subnet))" using l by (rule to4_length4)
  with n start net m b l k have le: "?na \<le> ip4_u32 a0" "ip4_u32 a0 < ?na OR mask j"
      "n \<le> int (unat ((?na OR mask j) - ip4_u32 a0))"
    by (auto simp: usable_leases_def ip4_bytes_of Let_def split: if_splits)
  have addr: "ip4_u32 (lease_addr (new_pool start n) k) = ip4_u32 a0 + of_int k"
    using start by (simp add: lease_addr_def new_pool_def)
  have r: "ip4_u32 a0 \<le> ip4_u32 a0 + of_int k" "ip4_u32 a0 + of_int k < ?na OR mask j"
    using of_int_less [OF k(1) _ le(2)] le(3) k by auto
  then have "(ip4_u32 a0 + of_int k) AND NOT (mask j) = ?na"
    by (intro subnet_member [OF refl]) (use le(1) in auto)
  with r addr b m show ?thesis by (simp add: in_subnet_def broadcast_of_def)
qed

section \<open>The reference: who gets which address\<close>

text \<open>
  The clients in the order of their first request, and the table a pool of \<open>n\<close> addresses
  must have after these requests: the first \<open>n\<close> clients, in that order, on consecutive
  addresses.
\<close>

definition firsts :: "mac list \<Rightarrow> mac list" where
  "firsts ms = rev (remdups (rev ms))"

definition lease_table :: "ip4 \<Rightarrow> nat \<Rightarrow> mac list \<Rightarrow> (mac \<times> ip4) list" where
  "lease_table a n ms = (let cs = take n (firsts ms) in
     zip cs (map (\<lambda>k. u32_ip4 (ip4_u32 a + of_nat k)) [0..<length cs]))"

lemma firsts_snoc: "firsts (ms @ [m]) = (if m \<in> set ms then firsts ms else firsts ms @ [m])"
  by (simp add: firsts_def)

lemma firsts_Nil [simp]: "firsts [] = []"
  by (simp add: firsts_def)

lemma set_firsts [simp]: "set (firsts ms) = set ms"
  by (simp add: firsts_def)

lemma usable_leases_bound: "usable_leases network start mx = Some n \<Longrightarrow> n \<le> 2 ^ 32"
proof -
  have "int (unat w) \<le> 2 ^ 32" for w :: u32
    using uint_lt2p [of w] by simp
  then show "usable_leases network start mx = Some n \<Longrightarrow> n \<le> 2 ^ 32"
    by (auto simp: usable_leases_def Let_def split: option.splits bind_splits if_splits
        intro: order_trans order.strict_implies_order [OF order.strict_trans2])
qed

lemma serve_snoc: "serve (hws @ [hw]) p = fst (get_or_assign hw (serve hws p))"
  by (simp add: serve_def)

lemma new_pool_sel [simp]: "psize (new_pool start sz) = sz" "assigned (new_pool start sz) = []"
    "order (new_pool start sz) = []" "pnext (new_pool start sz) = 0"
  by (simp_all add: new_pool_def)

lemma get_or_assign_cases:
  assumes "pool_inv p"
  shows "get_or_assign hw p =
    (if mac_of hw \<in> set (order p) then (p, Inr (the (map_of (assigned p) (mac_of hw))))
     else if length (order p) < nat (psize p)
     then let a = lease_addr p (int (length (order p))) in
       (p\<lparr>pnext := pnext p + 1, assigned := assigned p @ [(mac_of hw, a)], order := order p @ [mac_of hw]\<rparr>, Inr a)
     else (p, Inl (PoolExhausted (psize p))))"
proof -
  have keys: "fst ` set (assigned p) = set (order p)"
    using pool_inv_keys [OF assms] by (metis set_map)
  have nx: "pnext p = int (length (order p))" using assms by (simp add: pool_inv_def)
  show ?thesis
  proof (cases "mac_of hw \<in> set (order p)")
    case True
    with keys obtain a where "map_of (assigned p) (mac_of hw) = Some a"
      by (metis map_of_eq_None_iff not_None_eq)
    with True show ?thesis by (simp add: get_or_assign_def)
  next
    case False
    with keys have "map_of (assigned p) (mac_of hw) = None" by (simp add: map_of_eq_None_iff)
    moreover from False keys have "mac_of hw \<notin> set (map fst (assigned p))" by simp
    ultimately show ?thesis using False nx
      by (auto simp: get_or_assign_def Let_def alist_update_fresh)
  qed
qed

lemma serve_order:
  assumes "pool_inv (new_pool start sz)"
  shows "order (serve hws (new_pool start sz)) = take (nat sz) (firsts (map mac_of hws))"
proof (induction hws rule: rev_induct)
  case (snoc hw hws)
  let ?p = "serve hws (new_pool start sz)" and ?ms = "map mac_of hws"
  have inv: "pool_inv ?p" using serve_inv [OF assms] .
  show ?case
  proof (cases "nat sz \<le> length (firsts ?ms)")
    case True
    with snoc have "\<not> length (order ?p) < nat sz" by simp
    with True show ?thesis
      by (simp add: serve_snoc get_or_assign_cases [OF inv] firsts_snoc snoc)
  next
    case False
    then have "order ?p = firsts ?ms" using snoc by simp
    with False show ?thesis
      by (simp add: serve_snoc get_or_assign_cases [OF inv] firsts_snoc Let_def)
  qed
qed simp

lemma lease_addr_new: "to4 start = Some a0 \<Longrightarrow> base p = base (new_pool start sz) \<Longrightarrow>
    lease_addr p (int k) = u32_ip4 (ip4_u32 a0 + of_nat k)"
  by (simp add: lease_addr_def new_pool_def)

text \<open>C7: The pool is first come, first served: whatever the requests, repeated ones included,
  the table of a pool of \<open>sz\<close> addresses starting at \<open>a0\<close> is the first \<open>sz\<close> distinct clients
  in the order of their first request, on consecutive addresses from \<open>a0\<close>; a client of the
  table is answered its address, and any other client is refused with the exhaustion error
  exactly when all \<open>sz\<close> addresses are taken.\<close>

theorem pool_first_come:
  assumes "to4 start = Some a0"
  shows "let p = serve hws (new_pool start sz); t = lease_table a0 (nat sz) (map mac_of hws) in
     assigned p = t \<and>
     snd (get_or_assign hw p) =
       (case map_of (lease_table a0 (nat sz) (map mac_of (hws @ [hw]))) (mac_of hw) of
          Some a \<Rightarrow> Inr a | None \<Rightarrow> Inl (PoolExhausted sz))"
proof -
  let ?p = "serve hws (new_pool start sz)" and ?q = "serve (hws @ [hw]) (new_pool start sz)"
  have table: "assigned (serve hws' (new_pool start sz)) = lease_table a0 (nat sz) (map mac_of hws')" for hws'
  proof -
    have "pool_inv (serve hws' (new_pool start sz))" by (intro serve_inv pool_inv_new)
    then show ?thesis
      using lease_addr_new [OF assms, of "serve hws' (new_pool start sz)"]
      by (simp add: pool_inv_def lease_table_def serve_order [OF pool_inv_new])
  qed
  have inv: "pool_inv ?p" by (intro serve_inv pool_inv_new)
  have "snd (get_or_assign hw ?p) =
      (case map_of (assigned ?q) (mac_of hw) of Some a \<Rightarrow> Inr a | None \<Rightarrow> Inl (PoolExhausted sz))"
  proof (cases "snd (get_or_assign hw ?p)")
    case (Inr a)
    then have "map_of (assigned ?q) (mac_of hw) = Some a"
      using get_or_assign_Inr [of hw ?p ?q a] by (simp add: serve_snoc prod_eq_iff)
    with Inr show ?thesis by simp
  next
    case (Inl e)
    with get_or_assign_cases [OF inv, of hw] have "mac_of hw \<notin> set (order ?p)" "?q = ?p"
        "e = PoolExhausted sz"
      by (auto simp: serve_snoc Let_def split: if_splits)
    moreover from this have "map_of (assigned ?p) (mac_of hw) = None"
      using pool_inv_keys [OF inv] by (metis map_of_eq_None_iff set_map)
    ultimately show ?thesis using Inl by simp
  qed
  with table [of hws] table [of "hws @ [hw]"] show ?thesis by (simp add: Let_def)
qed

lemma pool_first_come_witness:
  "let p = serve [[2,0,0,0,0,1], [2,0,0,0,0,2], [2,0,0,0,0,1]] (new_pool [10,0,2,15] 2);
     t = lease_table (IP4 10 0 2 15) (nat 2) (map mac_of [[2,0,0,0,0,1], [2,0,0,0,0,2], [2,0,0,0,0,1]]) in
   assigned p = t \<and> snd (get_or_assign [2,0,0,0,0,3] p) =
     (case map_of (lease_table (IP4 10 0 2 15) (nat 2)
          (map mac_of ([[2,0,0,0,0,1], [2,0,0,0,0,2], [2,0,0,0,0,1]] @ [[2,0,0,0,0,3]]))) (mac_of [2,0,0,0,0,3]) of
        Some a \<Rightarrow> Inr a | None \<Rightarrow> Inl (PoolExhausted 2))"
  by (rule pool_first_come) (simp add: to4_def ip4_of_def pad_def)


text \<open>The default network of the program, and its pool at 10.0.2.15.\<close>

lemma default_subnet:
  "parse_cidr ''10.0.2.0/24'' = Some \<lparr>net_ip = [10, 0, 2, 0], net_mask = [255, 255, 255, 0]\<rparr>"
  "to4 [10, 0, 2, 15] = Some (IP4 10 0 2 15)"
  "usable_leases ''10.0.2.0/24'' [10, 0, 2, 15] 64 = Some 64"
  by code_simp+


section \<open>What a restored pool holds\<close>

lemma restore_assigned:
  assumes "distinct (map fst L)" "sz \<le> 2 ^ 32"
  shows "assigned (restore L (new_pool start sz)) = picks (new_pool start sz) L (nat sz)"
    "order (restore L (new_pool start sz)) = map fst (picks (new_pool start sz) L (nat sz))"
    "pnext (restore L (new_pool start sz)) = int (length (picks (new_pool start sz) L (nat sz)))"
    "psize (restore L (new_pool start sz)) = sz"
    "base (restore L (new_pool start sz)) = base (new_pool start sz)"
  using restore_new [OF assms, of start] by (simp_all add: Let_def)

lemma picks_distinct:
  assumes "distinct (map fst L)" "n \<le> 2 ^ 32"
  shows "distinct (map fst (picks p L n))"
  using assms(2)
proof (induction n)
  case (Suc n)
  show ?case
  proof (cases "entry_at p L n")
    case (Some e)
    obtain m a where e: "e = (m, a)" by fastforce
    with Some picks_new_key [OF assms(1), of n p m a] Suc show ?thesis by (simp add: picks_Suc)
  qed (use Suc in \<open>simp add: picks_Suc\<close>)
qed (simp add: picks_def List.map_filter_def)

lemma picks_sorted: "\<exists>ks. sorted_wrt (<) ks \<and> set ks \<subseteq> {..<n} \<and>
    map snd (picks p L n) = map (\<lambda>k. lease_addr p (int k)) ks"
proof (induction n)
  case (Suc n)
  then obtain ks where ks: "sorted_wrt (<) ks" "set ks \<subseteq> {..<n}"
      "map snd (picks p L n) = map (\<lambda>k. lease_addr p (int k)) ks" by blast
  show ?case
  proof (cases "entry_at p L n")
    case None
    with ks show ?thesis by (intro exI [of _ ks]) (auto simp: picks_Suc)
  next
    case (Some e)
    with ks entry_at_Some [of p L n "fst e" "snd e"] show ?thesis
      by (intro exI [of _ "ks @ [n]"]) (auto simp: picks_Suc sorted_wrt_append)
  qed
qed (simp add: picks_def List.map_filter_def)

lemma entry_at_unique:
  assumes "distinct (map snd L)" "(m, a) \<in> set L" "a = lease_addr p (int k)"
  shows "entry_at p L k = Some (m, a)"
proof (cases "entry_at p L k")
  case None
  with entry_at_None [OF None assms(2)] assms(3) show ?thesis by simp
next
  case (Some e)
  obtain m' a' where e: "e = (m', a')" by fastforce
  with entry_at_Some Some have "(m', a') \<in> set L" "a' = a" using assms(3) by auto
  with assms(1,2) have "m' = m"
    by (metis distinct_map inj_onD snd_conv prod.inject)
  with Some e \<open>a' = a\<close> show ?thesis by simp
qed

text \<open>C22: A restored pool is sound for any gossiped table, in whatever order Go iterates over it:
  its entries come from the table and lie in the pool's range, no client appears twice, they
  stand in address order on pairwise different addresses, and \<open>First\<close> names the lowest of
  them. When the table itself holds no address twice, the restored entries are exactly the
  in-range entries of the table.\<close>

theorem restore_sound:
  assumes "distinct (map fst L)" and "sz \<le> 2 ^ 32"
  shows "let p = restore L (new_pool start sz) in
     set (assigned p) \<subseteq> {(m, a) \<in> set L. \<exists>k < nat sz. a = lease_addr p (int k)} \<and>
     distinct (map fst (assigned p)) \<and> order p = map fst (assigned p) \<and>
     (\<exists>ks. sorted_wrt (<) ks \<and> set ks \<subseteq> {..<nat sz} \<and>
        map snd (assigned p) = map (\<lambda>k. lease_addr p (int k)) ks) \<and>
     first_lease p = (case assigned p of [] \<Rightarrow> None | (m, a) # _ \<Rightarrow> Some a) \<and>
     (distinct (map snd L) \<longrightarrow>
        set (assigned p) = {(m, a) \<in> set L. \<exists>k < nat sz. a = lease_addr p (int k)})"
proof -
  let ?p = "restore L (new_pool start sz)" and ?q = "new_pool start sz"
  note r = restore_assigned [OF assms, of start]
  have sz: "nat sz \<le> 2 ^ 32" using assms(2) by (simp add: nat_le_iff)
  have addr: "lease_addr ?p = lease_addr ?q" using r(5) by (rule lease_addr_base)
  have sub: "set (assigned ?p) \<subseteq> {(m, a) \<in> set L. \<exists>k < nat sz. a = lease_addr ?p (int k)}"
    using entry_at_Some [of ?q L] by (auto simp: r addr set_picks) blast
  have dst: "distinct (map fst (assigned ?p))" using picks_distinct [OF assms(1) sz] r by simp
  have ord: "order ?p = map fst (assigned ?p)" using r by simp
  have "first_lease ?p = (case assigned ?p of [] \<Rightarrow> None | (m, a) # _ \<Rightarrow> Some a)"
    using ord by (auto simp: first_lease_def split: list.splits)
  moreover have "set (assigned ?p) = {(m, a) \<in> set L. \<exists>k < nat sz. a = lease_addr ?p (int k)}"
    if "distinct (map snd L)"
    using sub entry_at_unique [OF that, of _ _ ?q] by (fastforce simp: r addr set_picks)
  moreover have "\<exists>ks. sorted_wrt (<) ks \<and> set ks \<subseteq> {..<nat sz} \<and>
      map snd (assigned ?p) = map (\<lambda>k. lease_addr ?p (int k)) ks"
    using picks_sorted [of "nat sz" ?q L] r addr by simp
  ultimately show ?thesis using sub dst ord by (simp only: Let_def) blast
qed

definition gossip :: "(mac \<times> ip4) list" where
  "gossip = [(MAC 2 0 0 0 0 7, IP4 10 0 2 17), (MAC 2 0 0 0 0 1, IP4 10 0 2 15), (MAC 2 0 0 0 0 9, IP4 10 9 9 9)]"

lemma restore_sound_witness:
  "let p = restore gossip (new_pool [10,0,2,15] 64) in
     set (assigned p) \<subseteq> {(m, a) \<in> set gossip. \<exists>k < nat 64. a = lease_addr p (int k)} \<and>
     distinct (map fst (assigned p)) \<and> order p = map fst (assigned p) \<and>
     (\<exists>ks. sorted_wrt (<) ks \<and> set ks \<subseteq> {..<nat 64} \<and>
        map snd (assigned p) = map (\<lambda>k. lease_addr p (int k)) ks) \<and>
     first_lease p = (case assigned p of [] \<Rightarrow> None | (m, a) # _ \<Rightarrow> Some a) \<and>
     (distinct (map snd gossip) \<longrightarrow>
        set (assigned p) = {(m, a) \<in> set gossip. \<exists>k < nat 64. a = lease_addr p (int k)})"
  by (rule restore_sound) (simp_all add: gossip_def)

text \<open>Restoring a table with a gap makes the pool lease one address twice: the next free
  offset after a restore is the number of restored entries, so when the restored addresses
  do not start at the pool's first address without a gap, the next new client can be given
  an address that a restored client already holds.\<close>

theorem restore_gap_duplicates:
  assumes "distinct (map fst L)" and "sz \<le> 2 ^ 32"
    and "p = restore L (new_pool start sz)"
    and "(m, a) \<in> set (assigned p)" and "a = lease_addr p (int (length (assigned p)))"
    and "length (assigned p) < nat sz" and "mac_of hw \<notin> fst ` set L"
  shows "snd (get_or_assign hw p) = Inr a \<and> m \<noteq> mac_of hw \<and>
     map_of (assigned (fst (get_or_assign hw p))) m = Some a \<and>
     map_of (assigned (fst (get_or_assign hw p))) (mac_of hw) = Some a"
proof -
  note r = restore_assigned [OF assms(1,2), of start, folded assms(3)]
  have sz: "nat sz \<le> 2 ^ 32" using assms(2) by (simp add: nat_le_iff)
  have dst: "distinct (map fst (assigned p))" using picks_distinct [OF assms(1) sz] r by simp
  have sub: "set (assigned p) \<subseteq> set L"
    using entry_at_Some [of "new_pool start sz" L] by (auto simp: r set_picks)
  have new: "map_of (assigned p) (mac_of hw) = None"
    using sub assms(7) by (auto simp: map_of_eq_None_iff)
  have m: "m \<noteq> mac_of hw" using sub assms(4,7) by force
  have "map_of (assigned p) m = Some a" using dst assms(4) by simp
  moreover have "pnext p = int (length (assigned p))" using r by simp
  ultimately show ?thesis
    using new m assms(5,6) r(4)
    by (auto simp: get_or_assign_def Let_def update_conv')
qed

lemma restore_gap_duplicates_witness:
  "snd (get_or_assign [2,0,0,0,0,2] (restore [(MAC 2 0 0 0 0 1, IP4 10 0 2 16)] (new_pool [10,0,2,15] 64))) =
     Inr (IP4 10 0 2 16) \<and> MAC 2 0 0 0 0 1 \<noteq> mac_of [2,0,0,0,0,2] \<and>
   map_of (assigned (fst (get_or_assign [2,0,0,0,0,2]
     (restore [(MAC 2 0 0 0 0 1, IP4 10 0 2 16)] (new_pool [10,0,2,15] 64))))) (MAC 2 0 0 0 0 1) = Some (IP4 10 0 2 16) \<and>
   map_of (assigned (fst (get_or_assign [2,0,0,0,0,2]
     (restore [(MAC 2 0 0 0 0 1, IP4 10 0 2 16)] (new_pool [10,0,2,15] 64))))) (mac_of [2,0,0,0,0,2]) =
     Some (IP4 10 0 2 16)"
proof -
  have p: "assigned (restore [(MAC 2 0 0 0 0 1, IP4 10 0 2 16)] (new_pool [10,0,2,15] 64)) =
      [(MAC 2 0 0 0 0 1, IP4 10 0 2 16)]" by code_simp
  moreover have "lease_addr (restore [(MAC 2 0 0 0 0 1, IP4 10 0 2 16)] (new_pool [10,0,2,15] 64)) 1 =
      IP4 10 0 2 16" by code_simp
  ultimately show ?thesis
    by (intro restore_gap_duplicates [OF _ _ refl])
      (simp_all add: mac_of_def pad_def)
qed

end
