(* ===== verification/Headers.thy ===== *)
theory Headers
  imports Prelude
begin

text \<open>
  The header accessors of the \<^verbatim>\<open>gvisor.dev/gvisor/pkg/tcpip/header\<close> package that the
  program uses. That package is not part of the repository: its operations are the fields of
  the record \<open>hdr_ops\<close>, an argument of every definition that calls one. The predicate
  \<open>headers_ok\<close> states the documented layout (RFC 791, RFC 768) the callers rely on, and
  \<open>rfc\<close> is a concrete implementation of it for concrete evaluation.
\<close>

section \<open>Sizes and protocol numbers\<close>

definition ethernet_min :: nat where "ethernet_min = 14"
definition ipv4_min :: nat where "ipv4_min = 20"
definition udp_min :: nat where "udp_min = 8"
definition icmpv4_min :: nat where "icmpv4_min = 8"
definition proto_udp :: byte where "proto_udp = 17"
definition proto_icmp :: byte where "proto_icmp = 1"
definition icmp_echo :: byte where "icmp_echo = 8"
definition icmp_echo_reply :: byte where "icmp_echo_reply = 0"

definition eth_broadcast :: bytes where "eth_broadcast = replicate 6 0xff"

lemmas hdr_consts = ethernet_min_def ipv4_min_def udp_min_def icmpv4_min_def proto_udp_def proto_icmp_def
  icmp_echo_def icmp_echo_reply_def

section \<open>The operations\<close>

record ip_fields =
  if_total :: u16
  if_ttl :: byte
  if_proto :: byte
  if_src :: ip4
  if_dst :: ip4

record udp_fields =
  uf_src :: u16
  uf_dst :: u16
  uf_len :: u16

record eth_fields =
  ef_src :: bytes
  ef_dst :: bytes
  ef_type :: u16

text \<open>
  \<open>None\<close> from a payload is a run-time panic. The encoders write into the front of the
  buffer they are given.
\<close>

record hdr_ops =
  ip_protocol :: "bytes \<Rightarrow> byte"
  ip_header_length :: "bytes \<Rightarrow> byte"
  ip_total_length :: "bytes \<Rightarrow> u16"
  ip_dst_addr :: "bytes \<Rightarrow> bytes"
  ip_payload :: "bytes \<Rightarrow> bytes option"
  ip_encode :: "ip_fields \<Rightarrow> bytes \<Rightarrow> bytes"
  ip_calc_checksum :: "bytes \<Rightarrow> u16"
  ip_set_checksum :: "u16 \<Rightarrow> bytes \<Rightarrow> bytes"
  udp_dst_port :: "bytes \<Rightarrow> u16"
  udp_payload :: "bytes \<Rightarrow> bytes"
  udp_encode :: "udp_fields \<Rightarrow> bytes \<Rightarrow> bytes"
  udp_calc_checksum :: "u16 \<Rightarrow> bytes \<Rightarrow> u16"
  udp_set_checksum :: "u16 \<Rightarrow> bytes \<Rightarrow> bytes"
  pseudo_checksum :: "byte \<Rightarrow> ip4 \<Rightarrow> ip4 \<Rightarrow> u16 \<Rightarrow> u16"
  data_checksum :: "bytes \<Rightarrow> u16 \<Rightarrow> u16"
  combine_checksum :: "u16 \<Rightarrow> u16 \<Rightarrow> u16"
  eth_encode :: "eth_fields \<Rightarrow> bytes \<Rightarrow> bytes"

section \<open>The documented layout\<close>

definition ip_header :: "ip_fields \<Rightarrow> bytes" where
  "ip_header f = [0x45, 0] @ put16 (if_total f) @ [0, 0, 0, 0, if_ttl f, if_proto f, 0, 0]
     @ ip4_bytes (if_src f) @ ip4_bytes (if_dst f)"

definition udp_header :: "udp_fields \<Rightarrow> bytes" where
  "udp_header f = put16 (uf_src f) @ put16 (uf_dst f) @ put16 (uf_len f) @ [0, 0]"

definition eth_header :: "eth_fields \<Rightarrow> bytes" where
  "eth_header f = pad 6 (ef_dst f) @ pad 6 (ef_src f) @ put16 (ef_type f)"

text \<open>The one's complement sum of RFC 1071, as a number below 65536.\<close>

fun words_sum :: "bytes \<Rightarrow> nat" where
  "words_sum (a # b # xs) = 256 * unat a + unat b + words_sum xs"
| "words_sum [a] = 256 * unat a"
| "words_sum [] = 0"

definition ones_sum :: "nat \<Rightarrow> nat" where
  "ones_sum n = (if n = 0 then 0 else if n mod 65535 = 0 then 65535 else n mod 65535)"

definition ip_ok :: "hdr_ops \<Rightarrow> bool" where
  "ip_ok G \<longleftrightarrow>
     (\<forall>b. 20 \<le> length b \<longrightarrow> ip_protocol G b = b ! 9) \<and>
     (\<forall>b. 20 \<le> length b \<longrightarrow> ip_header_length G b = 4 * (b ! 0 AND 15)) \<and>
     (\<forall>b. 20 \<le> length b \<longrightarrow> u16_at b 2 = Some (ip_total_length G b)) \<and>
     (\<forall>b. 20 \<le> length b \<longrightarrow> ip_dst_addr G b = take 4 (drop 16 b)) \<and>
     (\<forall>b. 20 \<le> unat (ip_header_length G b) \<longrightarrow>
        unat (ip_header_length G b) \<le> unat (ip_total_length G b) \<longrightarrow>
        unat (ip_total_length G b) \<le> length b \<longrightarrow>
        ip_payload G b = Some (take (unat (ip_total_length G b) - unat (ip_header_length G b))
          (drop (unat (ip_header_length G b)) b))) \<and>
     (\<forall>f b. 20 \<le> length b \<longrightarrow> ip_encode G f b = ip_header f @ drop 20 b) \<and>
     (\<forall>w b. 20 \<le> length b \<longrightarrow> ip_set_checksum G w b = take 10 b @ put16 w @ drop 12 b) \<and>
     (\<forall>b. 20 \<le> length b \<longrightarrow> b ! 0 = 0x45 \<longrightarrow>
        unat (ip_calc_checksum G b) = ones_sum (words_sum (take 20 b)))"

definition udp_ok :: "hdr_ops \<Rightarrow> bool" where
  "udp_ok G \<longleftrightarrow>
     (\<forall>b. 8 \<le> length b \<longrightarrow> u16_at b 2 = Some (udp_dst_port G b)) \<and>
     (\<forall>b. 8 \<le> length b \<longrightarrow> udp_payload G b = drop 8 b) \<and>
     (\<forall>f b. 8 \<le> length b \<longrightarrow> udp_encode G f b = udp_header f @ drop 8 b) \<and>
     (\<forall>w b. 8 \<le> length b \<longrightarrow> udp_set_checksum G w b = take 6 b @ put16 w @ drop 8 b) \<and>
     (\<forall>w b. 8 \<le> length b \<longrightarrow> unat (udp_calc_checksum G w b) = ones_sum (unat w + words_sum (take 8 b)))"

definition sum_ok :: "hdr_ops \<Rightarrow> bool" where
  "sum_ok G \<longleftrightarrow>
     (\<forall>p s d n. unat (pseudo_checksum G p s d n) =
        ones_sum (words_sum (ip4_bytes s @ ip4_bytes d @ [0, p] @ put16 n))) \<and>
     (\<forall>b w. unat (data_checksum G b w) = ones_sum (unat w + words_sum b)) \<and>
     (\<forall>v w. unat (combine_checksum G v w) = ones_sum (unat v + unat w))"

definition eth_ok :: "hdr_ops \<Rightarrow> bool" where
  "eth_ok G \<longleftrightarrow> (\<forall>f b. 14 \<le> length b \<longrightarrow> eth_encode G f b = eth_header f @ drop 14 b)"

definition headers_ok :: "hdr_ops \<Rightarrow> bool" where
  "headers_ok G \<longleftrightarrow> ip_ok G \<and> udp_ok G \<and> sum_ok G \<and> eth_ok G"

lemma ip_okD:
  assumes "headers_ok G"
  shows "20 \<le> length b \<Longrightarrow> ip_protocol G b = b ! 9"
    "20 \<le> length b \<Longrightarrow> ip_header_length G b = 4 * (b ! 0 AND 15)"
    "20 \<le> length b \<Longrightarrow> u16_at b 2 = Some (ip_total_length G b)"
    "20 \<le> length b \<Longrightarrow> ip_dst_addr G b = take 4 (drop 16 b)"
    "20 \<le> unat (ip_header_length G b) \<Longrightarrow> unat (ip_header_length G b) \<le> unat (ip_total_length G b) \<Longrightarrow>
      unat (ip_total_length G b) \<le> length b \<Longrightarrow>
      ip_payload G b = Some (take (unat (ip_total_length G b) - unat (ip_header_length G b))
        (drop (unat (ip_header_length G b)) b))"
    "20 \<le> length b \<Longrightarrow> ip_encode G f b = ip_header f @ drop 20 b"
    "20 \<le> length b \<Longrightarrow> ip_set_checksum G w b = take 10 b @ put16 w @ drop 12 b"
    "20 \<le> length b \<Longrightarrow> b ! 0 = 0x45 \<Longrightarrow> unat (ip_calc_checksum G b) = ones_sum (words_sum (take 20 b))"
  using assms unfolding headers_ok_def ip_ok_def by blast+

lemma udp_okD:
  assumes "headers_ok G"
  shows "8 \<le> length b \<Longrightarrow> u16_at b 2 = Some (udp_dst_port G b)"
    "8 \<le> length b \<Longrightarrow> udp_payload G b = drop 8 b"
    "8 \<le> length b \<Longrightarrow> udp_encode G uf b = udp_header uf @ drop 8 b"
    "8 \<le> length b \<Longrightarrow> udp_set_checksum G w b = take 6 b @ put16 w @ drop 8 b"
    "8 \<le> length b \<Longrightarrow> unat (udp_calc_checksum G w b) = ones_sum (unat w + words_sum (take 8 b))"
  using assms unfolding headers_ok_def udp_ok_def by blast+

lemma sum_okD:
  assumes "headers_ok G"
  shows "unat (pseudo_checksum G p s d n) = ones_sum (words_sum (ip4_bytes s @ ip4_bytes d @ [0, p] @ put16 n))"
    "unat (data_checksum G b w) = ones_sum (unat w + words_sum b)"
    "unat (combine_checksum G v w) = ones_sum (unat v + unat w)"
  using assms unfolding headers_ok_def sum_ok_def by blast+

lemma eth_okD: "headers_ok G \<Longrightarrow> 14 \<le> length b \<Longrightarrow> eth_encode G f b = eth_header f @ drop 14 b"
  unfolding headers_ok_def eth_ok_def by blast

lemma length_ip_header [simp]: "length (ip_header f) = 20"
  by (simp add: ip_header_def)

lemma length_udp_header [simp]: "length (udp_header f) = 8"
  by (simp add: udp_header_def)

lemma length_eth_header [simp]: "length (eth_header f) = 14"
  by (simp add: eth_header_def)

section \<open>One's complement arithmetic\<close>

lemma ones_sum_less: "ones_sum n < 65536"
  by (auto simp: ones_sum_def intro: less_trans [OF mod_less_divisor])

lemma ones_sum_mod: "ones_sum n mod 65535 = n mod 65535"
  by (simp add: ones_sum_def)

lemma ones_sum_0 [simp]: "ones_sum n = 0 \<longleftrightarrow> n = 0"
  by (auto simp: ones_sum_def)

lemma ones_sum_unique:
  "m mod 65535 = n mod 65535 \<Longrightarrow> (m = 0 \<longleftrightarrow> n = 0) \<Longrightarrow> ones_sum m = ones_sum n"
  by (auto simp: ones_sum_def)

lemma ones_sum_id: "n < 65536 \<Longrightarrow> ones_sum n = n"
proof -
  assume "n < 65536"
  then consider "n = 0" | "n = 65535" | "0 < n" "n < 65535" by linarith
  then show ?thesis by cases (auto simp: ones_sum_def)
qed

lemma ones_sum_plus [simp]: "ones_sum (ones_sum m + n) = ones_sum (m + n)" "ones_sum (m + ones_sum n) = ones_sum (m + n)"
  by (rule ones_sum_unique, metis mod_add_left_eq ones_sum_mod, simp)
    (rule ones_sum_unique, metis mod_add_right_eq ones_sum_mod, simp)

text \<open>Adding the complement of a sum makes it all ones.\<close>

lemma ones_sum_complement: "ones_sum n + k = 65535 \<Longrightarrow> ones_sum (n + k) = 65535"
proof -
  assume "ones_sum n + k = 65535"
  then have "ones_sum (ones_sum n + k) = 65535" by (simp add: ones_sum_def)
  then show ?thesis by simp
qed

lemma words_sum_append: "even (length xs) \<Longrightarrow> words_sum (xs @ ys) = words_sum xs + words_sum ys"
  by (induction xs rule: words_sum.induct) auto

lemma words_sum_put16 [simp]: "words_sum (put16 w) = unat w"
proof -
  have "unat (ucast (drop_bit 8 w) :: byte) = unat w div 256"
  proof -
    have "unat (drop_bit 8 w) = unat w div 256"
      unfolding unat_drop_bit_eq drop_bit_eq_div by (simp add: unat_div)
    then show ?thesis using u16_bound [of w] by (simp add: unsigned_ucast_eq take_bit_eq_mod)
  qed
  moreover have "unat (ucast w :: byte) = unat w mod 256"
    by (simp add: unsigned_ucast_eq take_bit_eq_mod)
  ultimately show ?thesis by (simp add: put16_def)
qed

lemma unat_not16: "unat (NOT w :: u16) = 65535 - unat w"
proof -
  have "w \<le> -1" by simp
  then have "unat (-1 - w) = unat (-1 :: u16) - unat w" by (rule unat_sub)
  moreover have "NOT w = -1 - w" by (simp add: not_eq_complement)
  moreover have "unat (-1 :: u16) = 65535" by (simp add: unsigned_minus_1_eq_mask mask_eq_exp_minus_1)
  ultimately show ?thesis by (simp only:)
qed

text \<open>What a receiver checks: the one's complement sum over the message is all ones.\<close>

definition checksum_valid :: "bytes \<Rightarrow> bool" where
  "checksum_valid b \<longleftrightarrow> ones_sum (words_sum b) = 65535"

section \<open>Packets as the code assembles them\<close>

text \<open>The IPv4 header with its checksum filled in.\<close>

definition ip_checked :: "ip_fields \<Rightarrow> bytes" where
  "ip_checked f = [0x45, 0] @ put16 (if_total f) @ [0, 0, 0, 0, if_ttl f, if_proto f] @
     put16 (NOT (of_nat (ones_sum (words_sum (ip_header f))))) @ ip4_bytes (if_src f) @ ip4_bytes (if_dst f)"

lemma length_ip_checked [simp]: "length (ip_checked f) = 20"
  by (simp add: ip_checked_def)

lemma unat_ones_sum [simp]: "unat (of_nat (ones_sum n) :: u16) = ones_sum n"
  using ones_sum_less [of n] by (intro unat_of_nat16) simp

lemma ip_checked_valid: "checksum_valid (ip_checked f)"
proof -
  let ?c = "NOT (of_nat (ones_sum (words_sum (ip_header f)))) :: u16"
  have "words_sum (ip_checked f) = words_sum (ip_header f) + unat ?c"
    by (simp add: ip_checked_def ip_header_def words_sum_append)
  moreover have "ones_sum (words_sum (ip_header f)) + unat ?c = 65535"
    using ones_sum_less [of "words_sum (ip_header f)"] by (simp add: unat_not16)
  ultimately show ?thesis using ones_sum_complement by (simp add: checksum_valid_def)
qed

lemma ip_encode_checked:
  assumes "headers_ok G" "length buf = 20"
  shows "ip_set_checksum G (NOT (ip_calc_checksum G (ip_encode G f (buf @ body)))) (ip_encode G f (buf @ body)) =
    ip_checked f @ body"
proof -
  have e: "ip_encode G f (buf @ body) = ip_header f @ body"
    using ip_okD(6) [OF assms(1), of "buf @ body" f] assms(2) by simp
  have "unat (ip_calc_checksum G (ip_header f @ body)) = ones_sum (words_sum (ip_header f))"
    using ip_okD(8) [OF assms(1), of "ip_header f @ body"] by (simp add: ip_header_def)
  then have c: "ip_calc_checksum G (ip_header f @ body) = of_nat (ones_sum (words_sum (ip_header f)))"
    by (metis unat_ones_sum unsigned_word_eqI)
  show ?thesis unfolding e c
    using ip_okD(7) [OF assms(1), of "ip_header f @ body"] by (simp add: ip_checked_def ip_header_def)
qed

lemma eth_encode_front:
  "headers_ok G \<Longrightarrow> length buf = 14 \<Longrightarrow> eth_encode G f (buf @ body) = eth_header f @ body"
  using eth_okD [of G "buf @ body" f] by simp

lemma ip_checked_fields:
  assumes "headers_ok G"
  shows "ip_protocol G (ip_checked f @ body) = if_proto f" "unat (ip_header_length G (ip_checked f @ body)) = 20"
    "ip_total_length G (ip_checked f @ body) = if_total f" "ip_dst_addr G (ip_checked f @ body) = ip4_bytes (if_dst f)"
proof -
  show "ip_protocol G (ip_checked f @ body) = if_proto f" "unat (ip_header_length G (ip_checked f @ body)) = 20"
    "ip_dst_addr G (ip_checked f @ body) = ip4_bytes (if_dst f)"
    using ip_okD(1,2,4) [OF assms, of "ip_checked f @ body"] by (simp_all add: ip_checked_def nth_append)
  have "u16_at (ip_checked f @ body) 2 = Some (if_total f)"
    by (simp add: ip_checked_def u16_at_def subslice_def)
  then show "ip_total_length G (ip_checked f @ body) = if_total f"
    using ip_okD(3) [OF assms, of "ip_checked f @ body"] by simp
qed

text \<open>The UDP header with its checksum over pseudo header, header and payload.\<close>

definition udp_pseudo :: "ip4 \<Rightarrow> ip4 \<Rightarrow> nat \<Rightarrow> bytes" where
  "udp_pseudo src dst n = ip4_bytes src @ ip4_bytes dst @ [0, 17] @ put16 (of_nat n)"

definition udp_checked :: "ip4 \<Rightarrow> ip4 \<Rightarrow> udp_fields \<Rightarrow> bytes \<Rightarrow> bytes" where
  "udp_checked src dst f payload = put16 (uf_src f) @ put16 (uf_dst f) @ put16 (uf_len f) @
     put16 (NOT (of_nat (ones_sum (words_sum (udp_pseudo src dst (8 + length payload)) + words_sum payload +
       words_sum (udp_header f)))))"

definition udp_valid :: "ip4 \<Rightarrow> ip4 \<Rightarrow> bytes \<Rightarrow> bool" where
  "udp_valid src dst dgram \<longleftrightarrow>
     ones_sum (words_sum (udp_pseudo src dst (length dgram)) + words_sum dgram) = 65535"

lemma length_udp_checked [simp]: "length (udp_checked s d f p) = 8"
  by (simp add: udp_checked_def)

lemma udp_checked_valid: "udp_valid src dst (udp_checked src dst f payload @ payload)"
proof -
  let ?P = "words_sum (udp_pseudo src dst (8 + length payload))" and ?W = "words_sum payload"
    and ?H = "words_sum (udp_header f)"
  let ?c = "NOT (of_nat (ones_sum (?P + ?W + ?H))) :: u16"
  have "words_sum (udp_checked src dst f payload @ payload) = ?H + unat ?c + ?W"
    by (simp add: udp_checked_def udp_header_def words_sum_append)
  moreover have "ones_sum (?P + ?W + ?H) + unat ?c = 65535"
    using ones_sum_less [of "?P + ?W + ?H"] by (simp add: unat_not16)
  then have "ones_sum (?P + ?W + ?H + unat ?c) = 65535" by (rule ones_sum_complement)
  moreover have "?P + ?W + ?H + unat ?c = ?P + (?H + unat ?c + ?W)" by simp
  ultimately show ?thesis by (simp only: udp_valid_def length_append length_udp_checked)
qed

lemma udp_encode_checked:
  assumes "headers_ok G" and n_def: "n = 8 + length payload"
  shows "udp_set_checksum G (NOT (udp_calc_checksum G
       (combine_checksum G (pseudo_checksum G 17 src dst (of_nat n)) (data_checksum G payload 0))
       (udp_header f @ payload))) (udp_header f @ payload) = udp_checked src dst f payload @ payload"
proof -
  let ?w = "combine_checksum G (pseudo_checksum G 17 src dst (of_nat n)) (data_checksum G payload 0)"
  have "unat ?w = ones_sum (words_sum (udp_pseudo src dst n) + words_sum payload)"
    by (simp add: sum_okD [OF assms(1)] udp_pseudo_def)
  then have "unat (udp_calc_checksum G ?w (udp_header f @ payload)) =
      ones_sum (words_sum (udp_pseudo src dst n) + words_sum payload + words_sum (udp_header f))"
    by (simp add: udp_okD(5) [OF assms(1)])
  then have "udp_calc_checksum G ?w (udp_header f @ payload) =
      of_nat (ones_sum (words_sum (udp_pseudo src dst n) + words_sum payload + words_sum (udp_header f)))"
    by (metis unat_ones_sum unsigned_word_eqI)
  then show ?thesis
    using udp_okD(4) [OF assms(1), of "udp_header f @ payload"] by (simp add: udp_checked_def udp_header_def n_def)
qed

text \<open>A guest's UDP frame: Ethernet, a 20-byte IPv4 header, the UDP datagram, and Ethernet padding.\<close>

definition guest_udp :: "mac \<Rightarrow> mac \<Rightarrow> ip_fields \<Rightarrow> udp_fields \<Rightarrow> bytes \<Rightarrow> bytes \<Rightarrow> frame" where
  "guest_udp gw guest ip uf payload padding =
     mac_bytes gw @ mac_bytes guest @ put16 0x0800 @ ip_checked ip @ udp_header uf @ payload @ padding"

lemma guest_udp_parts:
  "length (guest_udp gw guest ip uf payload padding) = 42 + length payload + length padding"
  "drop 14 (guest_udp gw guest ip uf payload padding) = ip_checked ip @ udp_header uf @ payload @ padding"
  "u16_at (guest_udp gw guest ip uf payload padding) 12 = Some 0x0800"
  "subslice (guest_udp gw guest ip uf payload padding) 6 12 = Some (mac_bytes guest)"
  by (simp_all add: guest_udp_def subslice_def u16_at_def)

lemma guest_udp_payload:
  assumes "headers_ok G" "if_total ip = of_nat (28 + length payload)" "28 + length payload < 65536"
  shows "ip_payload G (ip_checked ip @ udp_header uf @ payload @ padding) = Some (udp_header uf @ payload)"
proof -
  note f = ip_checked_fields [OF assms(1), of ip "udp_header uf @ payload @ padding"]
  have t: "unat (if_total ip) = 28 + length payload"
    using assms(3) unfolding assms(2) by (intro unat_of_nat16) simp
  show ?thesis
    using ip_okD(5) [OF assms(1), of "ip_checked ip @ udp_header uf @ payload @ padding"] f t by simp
qed

section \<open>A concrete implementation\<close>

definition rfc :: hdr_ops where
  "rfc = \<lparr>ip_protocol = \<lambda>b. b ! 9,
     ip_header_length = \<lambda>b. 4 * (b ! 0 AND 15),
     ip_total_length = \<lambda>b. (case u16_at b 2 of Some w \<Rightarrow> w | None \<Rightarrow> 0),
     ip_dst_addr = \<lambda>b. take 4 (drop 16 b),
     ip_payload = \<lambda>b. let hl = unat (4 * (b ! 0 AND 15)); tl = unat (case u16_at b 2 of Some w \<Rightarrow> w | None \<Rightarrow> 0) in
       if hl \<le> tl \<and> tl \<le> length b then Some (take (tl - hl) (drop hl b)) else None,
     ip_encode = \<lambda>f b. ip_header f @ drop 20 b,
     ip_calc_checksum = \<lambda>b. of_nat (ones_sum (words_sum (take 20 b))),
     ip_set_checksum = \<lambda>w b. take 10 b @ put16 w @ drop 12 b,
     udp_dst_port = \<lambda>b. (case u16_at b 2 of Some w \<Rightarrow> w | None \<Rightarrow> 0),
     udp_payload = \<lambda>b. drop 8 b,
     udp_encode = \<lambda>f b. udp_header f @ drop 8 b,
     udp_calc_checksum = \<lambda>w b. of_nat (ones_sum (unat w + words_sum (take 8 b))),
     udp_set_checksum = \<lambda>w b. take 6 b @ put16 w @ drop 8 b,
     pseudo_checksum = \<lambda>p s d n. of_nat (ones_sum (words_sum (ip4_bytes s @ ip4_bytes d @ [0, p] @ put16 n))),
     data_checksum = \<lambda>b w. of_nat (ones_sum (unat w + words_sum b)),
     combine_checksum = \<lambda>v w. of_nat (ones_sum (unat v + unat w)),
     eth_encode = \<lambda>f b. eth_header f @ drop 14 b\<rparr>"

lemma rfc_ok: "headers_ok rfc"
  unfolding headers_ok_def ip_ok_def udp_ok_def sum_ok_def eth_ok_def
  by (intro conjI allI impI; ((simp add: rfc_def Let_def; fail) | (simp add: rfc_def u16_at_in; fail)))

end
