(* ===== verification/DhcpServer.thy ===== *)
theory DhcpServer
  imports DhcpPool Headers
begin

text \<open>
  The DHCP server at the frame layer, \<^verbatim>\<open>Server\<close> of \<^verbatim>\<open>internal/dhcp/dhcp.go\<close>.
  DHCP messages belong to the package \<^verbatim>\<open>github.com/insomniacslk/dhcp\<close>, which is not part
  of the repository: its operations are the fields of \<open>dhcp_ops\<close>, over an abstract type of
  messages. The pool is passed and returned.
\<close>

section \<open>The lease store the server relies on\<close>

locale lease_store =
  fixes assign :: "bytes \<Rightarrow> 's \<Rightarrow> 's \<times> ('e + ip4)"
    and held :: "'s \<Rightarrow> mac \<Rightarrow> ip4 option"
  assumes assign_held: "assign hw s = (s', Inr a) \<Longrightarrow> held s' (mac_of hw) = Some a"
    and assign_keeps: "held s m = Some a \<Longrightarrow> held (fst (assign hw s)) m = Some a"
    and assign_known: "held s (mac_of hw) = Some a \<Longrightarrow> assign hw s = (s, Inr a)"
    and assign_refused: "assign hw s = (s', Inl e) \<Longrightarrow> s' = s"
begin

definition served :: "bytes list \<Rightarrow> 's \<Rightarrow> 's" where
  "served hws s = fold (\<lambda>hw s. fst (assign hw s)) hws s"

lemma served_keeps: "held s m = Some a \<Longrightarrow> held (served hws s) m = Some a"
  by (induction hws arbitrary: s) (auto simp: served_def intro: assign_keeps)

text \<open>A client is told the same address again, whoever asked in between.\<close>

lemma assign_stable:
  assumes "assign hw s = (s', Inr a)" "mac_of hw' = mac_of hw"
  shows "assign hw' (served hws s') = (served hws s', Inr a)"
proof -
  have "held s' (mac_of hw) = Some a" using assms(1) by (rule assign_held)
  then have "held (served hws s') (mac_of hw') = Some a" using assms(2) by (simp add: served_keeps)
  then show ?thesis by (rule assign_known)
qed

end

lemma get_or_assign_refused: "get_or_assign hw p = (p', Inl e) \<Longrightarrow> p' = p"
  by (auto simp: get_or_assign_def Let_def split: option.splits if_splits)

interpretation lease_pool: lease_store get_or_assign "\<lambda>p. map_of (assigned p)"
  by unfold_locales
    (fact get_or_assign_Inr get_or_assign_keeps get_or_assign_known get_or_assign_refused)+

section \<open>Messages\<close>

datatype dhcp_option =
    OptServerIdentifier bytes
  | OptLeaseTime int
  | OptSubnetMask bytes
  | OptRouter bytes
  | OptDomainNameServer "bytes list"
  | OptInterfaceMTU u16
  | OptDomainSearchList "string list"
  | OptMessageType nat

record 'm dhcp_ops =
  msg_from_bytes :: "bytes \<Rightarrow> 'm option"
  msg_to_bytes :: "'m \<Rightarrow> bytes"
  msg_type :: "'m \<Rightarrow> nat"
  msg_client_hw :: "'m \<Rightarrow> bytes"
  msg_is_broadcast :: "'m \<Rightarrow> bool"
  msg_new_reply :: "'m \<Rightarrow> 'm option"
  msg_set_your_ip :: "bytes \<Rightarrow> 'm \<Rightarrow> 'm"
  msg_update_option :: "dhcp_option \<Rightarrow> 'm \<Rightarrow> 'm"

text \<open>The message types of RFC 2132 the server names.\<close>

definition type_discover :: nat where "type_discover = 1"
definition type_offer :: nat where "type_offer = 2"
definition type_request :: nat where "type_request = 3"
definition type_ack :: nat where "type_ack = 5"

lemmas dhcp_types = type_discover_def type_offer_def type_request_def type_ack_def

section \<open>The server\<close>

record dhcp_options =
  do_network :: string
  do_gateway :: string
  do_nameserver :: string
  do_mtu :: int
  do_lease_time :: int
  do_search :: "string list"

record dhcp_server =
  ds_opts :: dhcp_options
  ds_mac :: bytes

definition new_dhcp_server :: "dhcp_options \<Rightarrow> bytes \<Rightarrow> dhcp_server" where
  "new_dhcp_server opts m =
     \<lparr>ds_opts = (if do_lease_time opts = 0 then opts\<lparr>do_lease_time := 3600 * 1000000000\<rparr> else opts), ds_mac = m\<rparr>"

definition server_port :: u16 where "server_port = 67"
definition client_port :: u16 where "client_port = 68"

definition gateway_bytes :: "dhcp_server \<Rightarrow> ip4" where
  "gateway_bytes s = (case to4 (parse_ip (do_gateway (ds_opts s))) of Some a \<Rightarrow> a | None \<Rightarrow> IP4 10 0 2 2)"

text \<open>Where a reply goes: its Ethernet and IP destinations.\<close>

definition reply_dst :: "mac \<Rightarrow> bytes \<Rightarrow> bool \<Rightarrow> bytes \<times> ip4" where
  "reply_dst client yiaddr asked_broadcast =
     (if \<not> asked_broadcast then
        (case to4 yiaddr of
           Some y \<Rightarrow> (mac_bytes client, y)
         | None \<Rightarrow> (eth_broadcast, IP4 255 255 255 255))
      else (eth_broadcast, IP4 255 255 255 255))"

definition dhcp_reply_frame :: "hdr_ops \<Rightarrow> dhcp_server \<Rightarrow> bytes \<Rightarrow> mac \<Rightarrow> bytes \<Rightarrow> bool \<Rightarrow> frame" where
  "dhcp_reply_frame G s payload client yiaddr asked_broadcast = (
     let (dstMAC, dstIP) = reply_dst client yiaddr asked_broadcast;
         src = gateway_bytes s;
         udpLen = udp_min + length payload;
         udp = replicate udpLen 0;
         udp = udp_encode G \<lparr>uf_src = server_port, uf_dst = client_port, uf_len = of_nat udpLen\<rparr> udp;
         udp = take udp_min udp @ payload;
         pseudo = pseudo_checksum G proto_udp src dstIP (of_nat udpLen);
         withPayload = combine_checksum G pseudo (data_checksum G payload 0);
         udp = udp_set_checksum G (NOT (udp_calc_checksum G withPayload udp)) udp;
         ipLen = ipv4_min + udpLen;
         ip = replicate ipLen 0;
         ip = ip_encode G \<lparr>if_total = of_nat ipLen, if_ttl = 64, if_proto = proto_udp, if_src = src, if_dst = dstIP\<rparr> ip;
         ip = take ipv4_min ip @ udp;
         ip = ip_set_checksum G (NOT (ip_calc_checksum G ip)) ip;
         frame = replicate (ethernet_min + ipLen) 0;
         frame = eth_encode G \<lparr>ef_src = ds_mac s, ef_dst = dstMAC, ef_type = 0x0800\<rparr> frame
     in take ethernet_min frame @ ip)"

text \<open>The reply to a message, in the order the options are set.\<close>

definition reply_options :: "dhcp_options \<Rightarrow> ipnet \<Rightarrow> nat \<Rightarrow> dhcp_option list" where
  "reply_options opts net msgType =
     [OptServerIdentifier (parse_ip (do_gateway opts)), OptLeaseTime (do_lease_time opts),
      OptSubnetMask (net_mask net), OptRouter (parse_ip (do_gateway opts)),
      OptDomainNameServer [parse_ip (do_nameserver opts)]]
     @ (if 0 < do_mtu opts \<and> do_mtu opts \<le> 65535 then [OptInterfaceMTU (of_int (do_mtu opts))] else [])
     @ (if do_search opts \<noteq> [] then [OptDomainSearchList (do_search opts)] else [])
     @ [OptMessageType msgType]"

definition dhcp_handle_packet :: "'m dhcp_ops \<Rightarrow> hdr_ops \<Rightarrow> dhcp_server \<Rightarrow> bytes \<Rightarrow> mac \<Rightarrow> pool \<Rightarrow> pool \<times> frame option" where
  "dhcp_handle_packet D G s payload guest p = (case msg_from_bytes D payload of
       None \<Rightarrow> (p, None)
     | Some m \<Rightarrow>
         (case (if msg_type D m = type_discover then Some type_offer
                else if msg_type D m = type_request then Some type_ack else None) of
            None \<Rightarrow> (p, None)
          | Some msgType \<Rightarrow>
              (case msg_new_reply D m of
                 None \<Rightarrow> (p, None)
               | Some reply \<Rightarrow>
                   (case get_or_assign (msg_client_hw D m) p of
                      (p, Inl e) \<Rightarrow> (p, None)
                    | (p, Inr ip) \<Rightarrow>
                        (case parse_cidr (do_network (ds_opts s)) of
                           None \<Rightarrow> (p, None)
                         | Some net \<Rightarrow>
                             let reply = msg_set_your_ip D (ip4_bytes ip) reply;
                                 reply = fold (msg_update_option D) (reply_options (ds_opts s) net msgType) reply
                             in (p, Some (dhcp_reply_frame G s (msg_to_bytes D reply) guest (ip4_bytes ip)
                                   (msg_is_broadcast D m))))))))"

text \<open>The outer \<open>None\<close> is the panic of \<^verbatim>\<open>ip.Payload\<close> on a header it cannot slice.\<close>

definition dhcp_handle_frame :: "'m dhcp_ops \<Rightarrow> hdr_ops \<Rightarrow> dhcp_server \<Rightarrow> frame \<Rightarrow> pool \<Rightarrow> (pool \<times> frame option) option" where
  "dhcp_handle_frame D G s frame p =
     (if length frame < ethernet_min + ipv4_min + udp_min then Some (p, None)
      else do {
        t \<leftarrow> u16_at frame 12;
        if t \<noteq> 0x0800 then Some (p, None)
        else do {
          ip \<leftarrow> subslice_from frame ethernet_min;
          if ip_protocol G ip \<noteq> proto_udp then Some (p, None)
          else do {
            udp \<leftarrow> ip_payload G ip;
            if length udp < udp_min \<or> udp_dst_port G udp \<noteq> server_port then Some (p, None)
            else do {
              m \<leftarrow> subslice frame 6 12;
              Some (dhcp_handle_packet D G s (udp_payload G udp) (mac_of m) p) } } } })"

section \<open>The reply frame\<close>

lemma dhcp_reply_frame_eq:
  assumes "headers_ok G" "reply_dst client yiaddr bc = (dmac, dip)"
  shows "dhcp_reply_frame G s payload client yiaddr bc =
     eth_header \<lparr>ef_src = ds_mac s, ef_dst = dmac, ef_type = 0x0800\<rparr> @
     ip_checked \<lparr>if_total = of_nat (28 + length payload), if_ttl = 64, if_proto = 17, if_src = gateway_bytes s, if_dst = dip\<rparr> @
     udp_checked (gateway_bytes s) dip \<lparr>uf_src = 67, uf_dst = 68, uf_len = of_nat (8 + length payload)\<rparr> payload @ payload"
proof -
  let ?u = "\<lparr>uf_src = 67, uf_dst = 68, uf_len = of_nat (8 + length payload)\<rparr>"
  let ?f = "\<lparr>if_total = of_nat (28 + length payload), if_ttl = 64, if_proto = 17, if_src = gateway_bytes s, if_dst = dip\<rparr>"
  have u: "take 8 (udp_encode G ?u (replicate (8 + length payload) 0)) = udp_header ?u"
    using udp_okD(3) [OF assms(1), of "replicate (8 + length payload) 0"] by simp
  have i: "take 20 (ip_encode G ?f (replicate (28 + length payload) 0)) = ip_header ?f"
    using ip_okD(6) [OF assms(1), of "replicate (28 + length payload) 0"] by simp
  have e: "take 14 (eth_encode G ef (replicate (42 + length payload) 0)) = eth_header ef" for ef
    using eth_okD [OF assms(1), of "replicate (42 + length payload) 0"] by simp
  have h: "ip_header ?f @ d = ip_encode G ?f (replicate 20 0 @ d)" for d
    using ip_okD(6) [OF assms(1), of "replicate 20 0 @ d"] by simp
  have n: "14 + (28 + length payload) = 42 + length payload" "20 + (8 + length payload) = 28 + length payload"
    by simp_all
  show ?thesis
    unfolding dhcp_reply_frame_def assms(2) Let_def prod.case proto_udp_def server_port_def client_port_def
      hdr_consts(1-3) n u udp_encode_checked [OF assms(1) refl] i e
    unfolding h ip_encode_checked [OF assms(1) length_replicate] append_assoc ..
qed

section \<open>What a frame does to the leases\<close>

lemma dhcp_handle_packet_effect:
  "dhcp_handle_packet D G s payload guest p = (p', reply) \<Longrightarrow>
   (p' = p \<and> reply = None) \<or>
   (\<exists>m a. msg_from_bytes D payload = Some m \<and> get_or_assign (msg_client_hw D m) p = (p', Inr a) \<and>
      (reply = None \<longrightarrow> parse_cidr (do_network (ds_opts s)) = None))"
  by (auto simp: dhcp_handle_packet_def Let_def dest: get_or_assign_refused
      split: option.splits if_splits sum.splits prod.splits)

lemma dhcp_handle_frame_effect:
  assumes "dhcp_handle_frame D G s frame p = Some (p', reply)"
  shows "(p' = p \<and> reply = None) \<or>
   (\<exists>hw a. get_or_assign hw p = (p', Inr a) \<and> (reply = None \<longrightarrow> parse_cidr (do_network (ds_opts s)) = None))"
proof -
  from assms have "p' = p \<and> reply = None \<or> (\<exists>payload guest. dhcp_handle_packet D G s payload guest p = (p', reply))"
    by (auto simp: dhcp_handle_frame_def Let_def split: if_splits bind_splits)
  then show ?thesis using dhcp_handle_packet_effect by blast
qed

text \<open>The pool after a sequence of frames, none of which panics.\<close>

fun dhcp_run :: "'m dhcp_ops \<Rightarrow> hdr_ops \<Rightarrow> dhcp_server \<Rightarrow> frame list \<Rightarrow> pool \<Rightarrow> pool option" where
  "dhcp_run D G s [] p = Some p"
| "dhcp_run D G s (f # fs) p = Option.bind (dhcp_handle_frame D G s f p) (\<lambda>(p', _). dhcp_run D G s fs p')"

text \<open>A run of frames is a run of requests to the lease store.\<close>

lemma dhcp_run_served: "dhcp_run D G s fs p = Some p' \<Longrightarrow> \<exists>hws. p' = lease_pool.served hws p"
proof (induction fs arbitrary: p)
  case (Cons f fs)
  then obtain p1 reply where f: "dhcp_handle_frame D G s f p = Some (p1, reply)" "dhcp_run D G s fs p1 = Some p'"
    by (auto split: bind_splits prod.splits)
  from Cons.IH [OF f(2)] obtain hws where hws: "p' = lease_pool.served hws p1" by blast
  from dhcp_handle_frame_effect [OF f(1)] show ?case
  proof (elim disjE exE conjE)
    assume "p1 = p"
    with hws show ?thesis by blast
  next
    fix hw a assume "get_or_assign hw p = (p1, Inr a)"
    then have "p' = lease_pool.served (hw # hws) p" using hws by (simp add: lease_pool.served_def)
    then show ?thesis by blast
  qed
qed (auto simp: lease_pool.served_def intro: exI [of _ "[]"])

section \<open>Properties\<close>

text \<open>The message the reply carries.\<close>

definition reply_message :: "'m dhcp_ops \<Rightarrow> dhcp_server \<Rightarrow> ipnet \<Rightarrow> 'm \<Rightarrow> 'm \<Rightarrow> ip4 \<Rightarrow> 'm" where
  "reply_message D s net m r0 a =
     fold (msg_update_option D)
       (reply_options (ds_opts s) net (if msg_type D m = type_discover then type_offer else type_ack))
       (msg_set_your_ip D (ip4_bytes a) r0)"

lemma dhcp_handle_packet_answer:
  assumes "msg_from_bytes D payload = Some m" "msg_type D m = type_discover \<or> msg_type D m = type_request"
    "msg_new_reply D m = Some r0" "get_or_assign (msg_client_hw D m) p = (p', Inr a)"
    "parse_cidr (do_network (ds_opts s)) = Some net"
  shows "dhcp_handle_packet D G s payload guest p =
     (p', Some (dhcp_reply_frame G s (msg_to_bytes D (reply_message D s net m r0 a)) guest (ip4_bytes a) (msg_is_broadcast D m)))"
  using assms by (auto simp: dhcp_handle_packet_def Let_def reply_message_def dhcp_types)

lemma dhcp_handle_frame_guest:
  assumes "headers_ok G" "if_proto ip = 17" "if_total ip = of_nat (28 + length payload)" "28 + length payload < 65536"
    "uf_dst uf = 67"
  shows "dhcp_handle_frame D G s (guest_udp gw guest ip uf payload padding) p =
     Some (dhcp_handle_packet D G s payload guest p)"
proof -
  have "u16_at (udp_header uf @ payload) 2 = Some 67"
    using assms(5) by (simp add: udp_header_def u16_at_def subslice_def)
  then have "udp_dst_port G (udp_header uf @ payload) = 67"
    using udp_okD(1) [OF assms(1), of "udp_header uf @ payload"] by simp
  moreover have "udp_payload G (udp_header uf @ payload) = payload"
    using udp_okD(2) [OF assms(1), of "udp_header uf @ payload"] by simp
  ultimately show ?thesis
    using assms(2) by (simp add: dhcp_handle_frame_def hdr_consts guest_udp_parts subslice_from_def server_port_def
        ip_checked_fields [OF assms(1)] guest_udp_payload [OF assms(1,3,4)])
qed


text \<open>C30: The offered and the acknowledged address agree: once a client has been given an address,
  after any run of frames from any clients the server answers that client's next DISCOVER or
  REQUEST with the same address and an unchanged pool.\<close>

theorem dhcp_offer_ack:
  assumes "dhcp_handle_packet D G s payload guest p = (p1, Some out)"
    and "msg_from_bytes D payload = Some m"
    and "dhcp_run D G s frames p1 = Some p2"
    and "msg_from_bytes D payload' = Some m'" and "mac_of (msg_client_hw D m') = mac_of (msg_client_hw D m)"
    and "msg_type D m' = type_discover \<or> msg_type D m' = type_request" and "msg_new_reply D m' = Some r0"
    and "parse_cidr (do_network (ds_opts s)) = Some net"
  shows "\<exists>a. get_or_assign (msg_client_hw D m) p = (p1, Inr a) \<and>
     dhcp_handle_packet D G s payload' guest' p2 = (p2, Some (dhcp_reply_frame G s
       (msg_to_bytes D (reply_message D s net m' r0 a)) guest' (ip4_bytes a) (msg_is_broadcast D m')))"
proof -
  obtain a where a: "get_or_assign (msg_client_hw D m) p = (p1, Inr a)"
    using dhcp_handle_packet_effect [OF assms(1)] assms(2) by auto
  obtain hws where "p2 = lease_pool.served hws p1" using dhcp_run_served [OF assms(3)] by blast
  then have "get_or_assign (msg_client_hw D m') p2 = (p2, Inr a)"
    using lease_pool.assign_stable [OF a assms(5)] by simp
  from dhcp_handle_packet_answer [OF assms(4,6,7) this assms(8)] a show ?thesis by blast
qed

section \<open>A concrete message package\<close>

text \<open>Messages as a type byte, a broadcast byte and a hardware address, for concrete evaluation.\<close>

definition demo_ops :: "(nat \<times> bool \<times> bytes) dhcp_ops" where
  "demo_ops = \<lparr>msg_from_bytes = \<lambda>b. (case b of t # c # hw \<Rightarrow> if length hw = 6 then Some (unat t, c = 1, hw) else None | _ \<Rightarrow> None),
     msg_to_bytes = \<lambda>(t, c, hw). of_nat t # (if c then 1 else 0) # hw,
     msg_type = fst, msg_client_hw = \<lambda>(t, c, hw). hw, msg_is_broadcast = \<lambda>(t, c, hw). c,
     msg_new_reply = Some, msg_set_your_ip = \<lambda>_ m. m,
     msg_update_option = \<lambda>x (t, c, hw). (case x of OptMessageType t' \<Rightarrow> t' | _ \<Rightarrow> t, c, hw)\<rparr>"

definition demo_server :: dhcp_server where
  "demo_server = new_dhcp_server \<lparr>do_network = ''10.0.2.0/24'', do_gateway = ''10.0.2.2'', do_nameserver = ''10.0.2.3'',
     do_mtu = 1500, do_lease_time = 0, do_search = []\<rparr> [0x7a, 0x72, 0x6d, 0x3c, 0xd7, 0x23]"

definition demo_pool :: pool where
  "demo_pool = new_pool [10, 0, 2, 15] 64"

definition demo_ip :: ip_fields where
  "demo_ip = \<lparr>if_total = 36, if_ttl = 64, if_proto = 17, if_src = IP4 0 0 0 0, if_dst = IP4 255 255 255 255\<rparr>"

definition demo_udp :: udp_fields where
  "demo_udp = \<lparr>uf_src = 68, uf_dst = 67, uf_len = 16\<rparr>"

lemma demo_msg [simp]:
  "msg_from_bytes demo_ops [t, c, a, b, d, e, f, g] = Some (unat t, c = 1, [a, b, d, e, f, g])"
  "msg_type demo_ops (n, x, hw) = n" "msg_client_hw demo_ops (n, x, hw) = hw" "msg_is_broadcast demo_ops (n, x, hw) = x"
  "msg_new_reply demo_ops m = Some m"
  by (simp_all add: demo_ops_def)

lemma demo_network: "parse_cidr (do_network (ds_opts demo_server)) =
    Some \<lparr>net_ip = [10, 0, 2, 0], net_mask = [255, 255, 255, 0]\<rparr>"
  using default_subnet(1) by (simp add: demo_server_def new_dhcp_server_def)

lemma demo_assign: "get_or_assign [2, 0, 0, 0, 0, 1] demo_pool =
    (fst (get_or_assign [2, 0, 0, 0, 0, 1] demo_pool), Inr (IP4 10 0 2 15))"
proof -
  have "lease_addr demo_pool 0 = IP4 10 0 2 15"
    by (simp add: lease_addr_def demo_pool_def new_pool_def to4_def ip4_of_def pad_def)
  then have "snd (get_or_assign [2, 0, 0, 0, 0, 1] demo_pool) = Inr (IP4 10 0 2 15)"
    by (simp add: get_or_assign_def demo_pool_def Let_def)
  then show ?thesis by (simp add: prod_eq_iff)
qed


lemma dhcp_offer_ack_witness:
  "\<exists>p1 a. get_or_assign (msg_client_hw demo_ops (1, False, [2, 0, 0, 0, 0, 1])) demo_pool = (p1, Inr a) \<and>
     dhcp_handle_packet demo_ops rfc demo_server [3, 0, 2, 0, 0, 0, 0, 1] (MAC 2 0 0 0 0 1) p1 =
       (p1, Some (dhcp_reply_frame rfc demo_server (msg_to_bytes demo_ops (reply_message demo_ops demo_server
         \<lparr>net_ip = [10, 0, 2, 0], net_mask = [255, 255, 255, 0]\<rparr> (3, False, [2, 0, 0, 0, 0, 1]) (3, False, [2, 0, 0, 0, 0, 1]) a))
         (MAC 2 0 0 0 0 1) (ip4_bytes a) (msg_is_broadcast demo_ops (3, False, [2, 0, 0, 0, 0, 1]))))"
proof -
  let ?p1 = "fst (get_or_assign [2, 0, 0, 0, 0, 1] demo_pool)"
  have first: "\<exists>out. dhcp_handle_packet demo_ops rfc demo_server [1, 0, 2, 0, 0, 0, 0, 1] (MAC 2 0 0 0 0 1) demo_pool = (?p1, Some out)"
    using dhcp_handle_packet_answer [OF demo_msg(1) _ demo_msg(5) _ demo_network, of 1 0 2 0 0 0 0 1] demo_assign
    by (simp add: dhcp_types)
  then obtain out where out: "dhcp_handle_packet demo_ops rfc demo_server [1, 0, 2, 0, 0, 0, 0, 1] (MAC 2 0 0 0 0 1) demo_pool =
      (?p1, Some out)" by blast
  have run: "dhcp_run demo_ops rfc demo_server [[]] ?p1 = Some ?p1"
    by (simp add: dhcp_handle_frame_def hdr_consts)
  have "\<exists>a. get_or_assign (msg_client_hw demo_ops (1, False, [2, 0, 0, 0, 0, 1])) demo_pool = (?p1, Inr a) \<and>
     dhcp_handle_packet demo_ops rfc demo_server [3, 0, 2, 0, 0, 0, 0, 1] (MAC 2 0 0 0 0 1) ?p1 =
       (?p1, Some (dhcp_reply_frame rfc demo_server (msg_to_bytes demo_ops (reply_message demo_ops demo_server
         \<lparr>net_ip = [10, 0, 2, 0], net_mask = [255, 255, 255, 0]\<rparr> (3, False, [2, 0, 0, 0, 0, 1]) (3, False, [2, 0, 0, 0, 0, 1]) a))
         (MAC 2 0 0 0 0 1) (ip4_bytes a) (msg_is_broadcast demo_ops (3, False, [2, 0, 0, 0, 0, 1]))))"
    by (intro dhcp_offer_ack [OF out _ run _ _ _ _ demo_network]) (simp_all add: dhcp_types)
  then show ?thesis by blast
qed

end
