(* ===== verification/Elect.thy ===== *)
theory Elect
  imports Prelude
begin

text \<open>
  The hub heartbeat of \<^verbatim>\<open>internal/elect/elect.go\<close>: a broadcast Ethernet frame that
  carries a sequence number and the gossiped DHCP leases. The encoder writes into a zeroed
  buffer with Go's \<^verbatim>\<open>copy\<close> and \<^verbatim>\<open>PutUint\<close>; the parser slices the received
  frame. Both are written over the panicking accessors of the prelude, so that a read or a
  write out of bounds would be visible as \<open>None\<close>.
\<close>

section \<open>Data\<close>

record lease =
  l_mac :: mac
  l_ip :: ip4

datatype beacon_error = NotBeacon | BeaconVersion byte | BeaconTruncated

definition beacon_ethertype :: u16 where
  "beacon_ethertype = 0x88B5"

definition beacon_magic :: bytes where
  "beacon_magic = [0x56, 0x44, 0x48, 0x42]"

definition max_leases :: nat where
  "max_leases = 32"

section \<open>Encoding\<close>

text \<open>The loop body writes entry \<open>i\<close> into \<^verbatim>\<open>e := frame[25+10*i:]\<close>.\<close>

fun put_leases :: "nat \<Rightarrow> lease list \<Rightarrow> frame \<Rightarrow> frame option" where
  "put_leases i [] frame = Some frame"
| "put_leases i (l # ls) frame = do {
     frame \<leftarrow> copy_into frame (25 + 10 * i) (25 + 10 * i + 6) (mac_bytes (l_mac l));
     frame \<leftarrow> copy_into frame (25 + 10 * i + 6) (25 + 10 * i + 10) (ip4_bytes (l_ip l));
     put_leases (Suc i) ls frame }"

definition encode_beacon :: "bytes \<Rightarrow> u32 \<Rightarrow> lease list \<Rightarrow> frame option" where
  "encode_beacon srcMAC seq ls0 = (
     let ls = (if length ls0 > max_leases then take max_leases ls0 else ls0) in do {
       let frame = replicate (14 + 11 + 10 * length ls) 0;
       frame \<leftarrow> copy_into frame 0 6 [0xff, 0xff, 0xff, 0xff, 0xff, 0xff];
       frame \<leftarrow> copy_into frame 6 12 srcMAC;
       frame \<leftarrow> copy_into frame 12 14 (put16 beacon_ethertype);
       frame \<leftarrow> copy_into frame 14 (length frame) beacon_magic;
       frame \<leftarrow> store frame 18 1;
       frame \<leftarrow> copy_into frame 19 23 (put32 seq);
       frame \<leftarrow> copy_into frame 23 25 (put16 (of_nat (length ls)));
       put_leases 0 ls frame })"

section \<open>Recognising and parsing\<close>

definition is_beacon :: "frame \<Rightarrow> bool option" where
  "is_beacon frame = (
     if length frame < 25 then Some False
     else do {
       b0 \<leftarrow> idx frame 0;
       if b0 AND 1 = 0 then Some False
       else do {
         t \<leftarrow> u16_at frame 12;
         if t \<noteq> beacon_ethertype then Some False
         else do {
           magic \<leftarrow> subslice frame 14 18;
           Some (magic = beacon_magic) } } })"

fun read_leases :: "frame \<Rightarrow> nat \<Rightarrow> nat \<Rightarrow> lease list option" where
  "read_leases frame i 0 = Some []"
| "read_leases frame i (Suc k) = do {
     e \<leftarrow> subslice_from frame (25 + 10 * i);
     m \<leftarrow> subslice e 0 6;
     a \<leftarrow> subslice e 6 10;
     ls \<leftarrow> read_leases frame (Suc i) k;
     Some (\<lparr>l_mac = mac_of m, l_ip = ip4_of a\<rparr> # ls) }"

definition parse_beacon :: "frame \<Rightarrow> (beacon_error + (u32 \<times> lease list)) option" where
  "parse_beacon frame = do {
     ok \<leftarrow> is_beacon frame;
     if \<not> ok then Some (Inl NotBeacon)
     else do {
       v \<leftarrow> idx frame 18;
       if v \<noteq> 1 then Some (Inl (BeaconVersion v))
       else do {
         seq \<leftarrow> u32_at frame 19;
         cnt \<leftarrow> u16_at frame 23;
         let n = unat cnt;
         if n > max_leases \<or> length frame < 25 + 10 * n then Some (Inl BeaconTruncated)
         else do {
           ls \<leftarrow> read_leases frame 0 n;
           Some (Inr (seq, ls)) } } } }"

section \<open>The layout of an encoded heartbeat\<close>

definition lease_bytes :: "lease \<Rightarrow> bytes" where
  "lease_bytes l = mac_bytes (l_mac l) @ ip4_bytes (l_ip l)"

definition beacon_header :: "bytes \<Rightarrow> u32 \<Rightarrow> nat \<Rightarrow> bytes" where
  "beacon_header srcMAC seq n =
     replicate 6 0xff @ pad 6 srcMAC @ put16 beacon_ethertype @ beacon_magic @ [1]
       @ put32 seq @ put16 (of_nat n)"

lemma length_lease_bytes [simp]: "length (lease_bytes l) = 10"
  by (simp add: lease_bytes_def)

lemma length_beacon_magic [simp]: "length beacon_magic = 4"
  by (simp add: beacon_magic_def)

lemma length_beacon_header [simp]: "length (beacon_header src seq n) = 25"
  by (simp add: beacon_header_def)

lemma length_concat_leases [simp]: "length (concat (map lease_bytes ls)) = 10 * length ls"
  by (induction ls) simp_all

lemma put_leases_layout:
  assumes "length pre = 25 + 10 * i"
  shows "put_leases i ls (pre @ replicate (10 * length ls) 0) = Some (pre @ concat (map lease_bytes ls))"
  using assms
proof (induction ls arbitrary: i pre)
  case Nil
  then show ?case by simp
next
  case (Cons l ls)
  let ?n = "10 * length (l # ls)"
  from Cons.prems have 1: "copy_into (pre @ replicate ?n 0) (25 + 10 * i) (25 + 10 * i + 6) (mac_bytes (l_mac l))
      = Some ((pre @ mac_bytes (l_mac l)) @ replicate (?n - 6) 0)"
    by (subst copy_into_zeros) (auto simp: pad_exact)
  from Cons.prems have 2: "copy_into ((pre @ mac_bytes (l_mac l)) @ replicate (?n - 6) 0)
      (25 + 10 * i + 6) (25 + 10 * i + 10) (ip4_bytes (l_ip l))
      = Some ((pre @ lease_bytes l) @ replicate (10 * length ls) 0)"
    by (subst copy_into_zeros) (auto simp: pad_exact lease_bytes_def)
  from Cons.prems have "length (pre @ lease_bytes l) = 25 + 10 * Suc i" by simp
  from Cons.IH [OF this] 1 2 show ?case by simp
qed

lemma encode_beacon_layout [wire_simps]:
  "encode_beacon src seq ls =
     (let ls' = take max_leases ls in
      Some (beacon_header src seq (length ls') @ concat (map lease_bytes ls')))"
proof -
  define ls' where "ls' = take max_leases ls"
  have ls': "(if length ls > max_leases then take max_leases ls else ls) = ls'"
    by (simp add: ls'_def)
  let ?k = "10 * length ls'"
  define p1 :: bytes where "p1 = replicate 6 0xff"
  define p2 where "p2 = p1 @ pad 6 src"
  define p3 where "p3 = p2 @ put16 beacon_ethertype"
  define p4 where "p4 = p3 @ beacon_magic"
  define p5 where "p5 = p4 @ [1]"
  define p6 where "p6 = p5 @ put32 seq"
  have len: "length p1 = 6" "length p2 = 12" "length p3 = 14" "length p4 = 18" "length p5 = 19"
      "length p6 = 23"
    by (simp_all add: p1_def p2_def p3_def p4_def p5_def p6_def)
  have s1: "copy_into (replicate (14 + 11 + ?k) 0) 0 6 [0xff, 0xff, 0xff, 0xff, 0xff, 0xff]
      = Some (p1 @ replicate (19 + ?k) 0)"
    using copy_into_zeros [of "[]" 0 6 "14 + 11 + ?k"] by (simp add: p1_def pad_exact eval_nat_numeral)
  have s2: "copy_into (p1 @ replicate (19 + ?k) 0) 6 12 src = Some (p2 @ replicate (13 + ?k) 0)"
    using copy_into_zeros [of p1 6 12 "19 + ?k"] by (simp add: len p2_def)
  have s3: "copy_into (p2 @ replicate (13 + ?k) 0) 12 14 (put16 beacon_ethertype)
      = Some (p3 @ replicate (11 + ?k) 0)"
    using copy_into_zeros [of p2 12 14 "13 + ?k"] by (simp add: len p3_def pad_exact)
  have s4: "copy_into (p3 @ replicate (11 + ?k) 0) 14 (length (p3 @ replicate (11 + ?k) 0)) beacon_magic
      = Some (p4 @ replicate (7 + ?k) 0)"
    using copy_into_zeros [of p3 14 "25 + ?k" "11 + ?k"] by (simp add: len p4_def pad_def)
  have s5: "store (p4 @ replicate (7 + ?k) 0) 18 1 = Some (p5 @ replicate (6 + ?k) 0)"
    using store_zeros [of p4 18 "7 + ?k"] by (simp add: len p5_def)
  have s6: "copy_into (p5 @ replicate (6 + ?k) 0) 19 23 (put32 seq) = Some (p6 @ replicate (2 + ?k) 0)"
    using copy_into_zeros [of p5 19 23 "6 + ?k"] by (simp add: len p6_def pad_exact)
  have s7: "copy_into (p6 @ replicate (2 + ?k) 0) 23 25 (put16 (of_nat (length ls')))
      = Some (beacon_header src seq (length ls') @ replicate ?k 0)"
    using copy_into_zeros [of p6 23 25 "2 + ?k"]
    by (simp add: len pad_exact p6_def p5_def p4_def p3_def p2_def p1_def beacon_header_def)
  have s8: "put_leases 0 ls' (beacon_header src seq (length ls') @ replicate ?k 0)
      = Some (beacon_header src seq (length ls') @ concat (map lease_bytes ls'))"
    by (rule put_leases_layout) simp
  show ?thesis
    unfolding encode_beacon_def Let_def ls'
    by (simp only: s1 s2 s3 s4 s5 s6 s7 s8 Option.bind.bind_lunit ls'_def [symmetric])
qed

section \<open>No read out of bounds\<close>

lemma is_beacon_total: "is_beacon frame \<noteq> None"
  by (auto simp: is_beacon_def bounds_simps)

lemma is_beacon_length: "is_beacon frame = Some True \<Longrightarrow> 25 \<le> length frame"
  by (auto simp: is_beacon_def split: if_splits)

lemma read_leases_total:
  "25 + 10 * (i + n) \<le> length frame \<Longrightarrow> \<exists>ls. read_leases frame i n = Some ls \<and> length ls = n"
proof (induction n arbitrary: i)
  case 0
  then show ?case by simp
next
  case (Suc n)
  then have "25 + 10 * (Suc i + n) \<le> length frame" by simp
  from Suc.IH [OF this] obtain ls where "read_leases frame (Suc i) n = Some ls" "length ls = n"
    by blast
  with Suc.prems show ?case by (simp add: bounds_simps)
qed

lemma parse_beacon_total: "parse_beacon frame \<noteq> None"
proof -
  obtain b where b: "is_beacon frame = Some b" using is_beacon_total by blast
  show ?thesis
  proof (cases b)
    case False
    with b show ?thesis by (simp add: parse_beacon_def)
  next
    case True
    with b have len: "25 \<le> length frame" by (simp add: is_beacon_length)
    then obtain seq where seq: "u32_at frame 19 = Some seq"
      using u32_at_defined [of 19 frame] by auto
    from len obtain cnt where cnt: "u16_at frame 23 = Some cnt"
      using u16_at_defined [of 23 frame] by auto
    show ?thesis
      using b True len seq cnt read_leases_total [of 0 "unat cnt" frame]
      by (auto simp: parse_beacon_def bounds_simps Let_def)
  qed
qed

lemma parse_beacon_sound:
  assumes "parse_beacon frame = Some (Inr (seq, ls))"
  shows "is_beacon frame = Some True" and "length ls \<le> max_leases"
    and "25 + 10 * length ls \<le> length frame"
proof -
  obtain b where b: "is_beacon frame = Some b" using is_beacon_total by blast
  with assms have True: "is_beacon frame = Some True"
    by (cases b) (simp_all add: parse_beacon_def)
  then show "is_beacon frame = Some True" .
  from True assms obtain cnt :: u16 where *: "unat cnt \<le> max_leases" "25 + 10 * unat cnt \<le> length frame"
      "read_leases frame 0 (unat cnt) = Some ls"
    by (auto simp: parse_beacon_def Let_def not_less split: if_splits bind_splits)
  from * have "length ls = unat cnt"
    using read_leases_total [of 0 "unat cnt" frame] by auto
  with * show "length ls \<le> max_leases" "25 + 10 * length ls \<le> length frame" by simp_all
qed

section \<open>Round trip\<close>

lemma subslice_append_mid:
  "length pre = i \<Longrightarrow> length mid = j - i \<Longrightarrow> i \<le> j \<Longrightarrow> subslice (pre @ mid @ post) i j = Some mid"
  by (simp add: subslice_def)

lemma read_leases_layout:
  assumes "length pre = 25 + 10 * i"
  shows "read_leases (pre @ concat (map lease_bytes ls) @ post) i (length ls) = Some ls"
  using assms
proof (induction ls arbitrary: i pre)
  case Nil
  then show ?case by simp
next
  case (Cons l ls)
  let ?rest = "concat (map lease_bytes ls) @ post"
  have e: "subslice_from (pre @ lease_bytes l @ ?rest) (25 + 10 * i) = Some (lease_bytes l @ ?rest)"
    using Cons.prems by (simp add: subslice_from_def)
  have m: "subslice (lease_bytes l @ ?rest) 0 6 = Some (mac_bytes (l_mac l))"
    and a: "subslice (lease_bytes l @ ?rest) 6 10 = Some (ip4_bytes (l_ip l))"
    by (simp_all add: lease_bytes_def subslice_def)
  have "length (pre @ lease_bytes l) = 25 + 10 * Suc i"
    using Cons.prems by simp
  from Cons.IH [OF this] e m a show ?case by simp
qed

lemma is_beacon_header: "is_beacon (beacon_header src seq n @ xs) = Some True"
proof -
  have "u16_at (beacon_header src seq n @ xs) 12 = Some beacon_ethertype"
    by (simp add: u16_at_def beacon_header_def subslice_def)
  moreover have "subslice (beacon_header src seq n @ xs) 14 18 = Some beacon_magic"
    by (simp add: beacon_header_def subslice_def)
  moreover have "idx (beacon_header src seq n @ xs) 0 = Some 0xff"
    by (simp add: beacon_header_def idx_def nth_append)
  ultimately show ?thesis by (simp add: is_beacon_def)
qed

lemma encode_beacon_parse:
  "\<exists>frame. encode_beacon src seq ls = Some frame \<and>
     parse_beacon frame = Some (Inr (seq, take max_leases ls))"
proof -
  define ls' where "ls' = take max_leases ls"
  define n where "n = length ls'"
  let ?f = "beacon_header src seq n @ concat (map lease_bytes ls')"
  have n: "n \<le> max_leases" "n < 2 ^ 16" by (simp_all add: n_def ls'_def max_leases_def)
  have enc: "encode_beacon src seq ls = Some ?f"
    by (simp add: encode_beacon_layout ls'_def n_def Let_def)
  have "idx ?f 18 = Some 1"
    by (simp add: beacon_header_def idx_def nth_append)
  moreover have "u32_at ?f 19 = Some seq"
    by (simp add: u32_at_def beacon_header_def subslice_def)
  moreover have "u16_at ?f 23 = Some (of_nat n)"
    by (simp add: u16_at_def beacon_header_def subslice_def)
  moreover have "unat (of_nat n :: u16) = n"
    using n by (simp add: unat_of_nat16)
  moreover have "read_leases ?f 0 n = Some ls'"
    using read_leases_layout [of "beacon_header src seq n" 0 ls' "[]"] by (simp add: n_def)
  ultimately have "parse_beacon ?f = Some (Inr (seq, ls'))"
    using n by (simp add: parse_beacon_def is_beacon_header n_def)
  with enc show ?thesis by (auto simp: ls'_def)
qed

section \<open>What was parsed is what was on the wire\<close>

lemma u16_at_put: "u16_at b i = Some w \<Longrightarrow> take 2 (drop i b) = put16 w"
proof -
  assume a: "u16_at b i = Some w"
  then have "i + 2 \<le> length b" by (auto simp: u16_at_def subslice_def split: if_splits bind_splits)
  with a show ?thesis
    by (auto simp: u16_at_def subslice_in take_drop_nth2 put16_be16)
qed

lemma u32_at_put: "u32_at b i = Some w \<Longrightarrow> take 4 (drop i b) = put32 w"
proof -
  assume a: "u32_at b i = Some w"
  then have len: "i + 4 \<le> length b" by (auto simp: u32_at_def subslice_def split: if_splits bind_splits)
  then have "length (take 4 (drop i b)) = 4" by simp
  from list4_exhaust [OF this] obtain x y z v where e: "take 4 (drop i b) = [x, y, z, v]" by blast
  with a len have "be32 [x, y, z, v] = Some w" by (simp add: u32_at_def subslice_in)
  from put32_be32 [OF this] e show ?thesis by simp
qed

lemma read_leases_bytes:
  "read_leases frame i n = Some ls \<Longrightarrow> concat (map lease_bytes ls) = take (10 * n) (drop (25 + 10 * i) frame) \<and> length ls = n"
proof (induction n arbitrary: i ls)
  case (Suc n)
  let ?d = "drop (25 + 10 * i) frame"
  from Suc.prems obtain m a ls' where
      s: "subslice ?d 0 6 = Some m" "subslice ?d 6 10 = Some a"
      "read_leases frame (Suc i) n = Some ls'"
      and ls: "ls = \<lparr>l_mac = mac_of m, l_ip = ip4_of a\<rparr> # ls'"
    by (auto simp: subslice_from_def split: bind_splits if_splits)
  from s(1,2) have len: "10 \<le> length ?d" and ma: "m = take 6 ?d" "a = take 4 (drop 6 ?d)"
    by (auto simp: subslice_def split: if_splits)
  have "lease_bytes \<lparr>l_mac = mac_of m, l_ip = ip4_of a\<rparr> = take 6 ?d @ take 4 (drop 6 ?d)"
    using len by (simp add: lease_bytes_def ma mac_bytes_of ip4_bytes_of)
  also have "\<dots> = take 10 ?d" using take_add [of 6 4 ?d] by simp
  finally show ?case
    using Suc.IH [OF s(3)] take_add [of 10 "10 * n" ?d] by (simp add: ls add.commute)
qed simp

lemma parse_beacon_fields:
  assumes "parse_beacon frame = Some (Inr (seq, ls))"
  shows "25 + 10 * length ls \<le> length frame" "take 2 (drop 12 frame) = put16 beacon_ethertype"
    "take 4 (drop 14 frame) = beacon_magic" "frame ! 18 = 1" "take 4 (drop 19 frame) = put32 seq"
    "take 2 (drop 23 frame) = put16 (of_nat (length ls))"
    "take (10 * length ls) (drop 25 frame) = concat (map lease_bytes ls)"
proof -
  note s = parse_beacon_sound [OF assms]
  show len: "25 + 10 * length ls \<le> length frame" by (rule s)
  from s(1) show "take 2 (drop 12 frame) = put16 beacon_ethertype"
    by (intro u16_at_put) (auto simp: is_beacon_def split: if_splits bind_splits)
  from s(1) show "take 4 (drop 14 frame) = beacon_magic"
    by (auto simp: is_beacon_def subslice_def split: if_splits bind_splits)
  obtain cnt where c: "frame ! 18 = 1" "u32_at frame 19 = Some seq" "u16_at frame 23 = Some cnt"
      "read_leases frame 0 (unat cnt) = Some ls"
    using assms s(1) len
    by (auto simp: parse_beacon_def Let_def bounds_simps split: if_splits bind_splits)
  then show "frame ! 18 = 1" "take 4 (drop 19 frame) = put32 seq" by (simp_all add: u32_at_put)
  from read_leases_bytes [OF c(4)] have l: "length ls = unat cnt"
      "concat (map lease_bytes ls) = take (10 * unat cnt) (drop 25 frame)" by simp_all
  then show "take 2 (drop 23 frame) = put16 (of_nat (length ls))"
      "take (10 * length ls) (drop 25 frame) = concat (map lease_bytes ls)"
    using u16_at_put [OF c(3)] by simp_all
qed

lemma beacon_prefix:
  assumes "parse_beacon frame = Some (Inr (seq, ls))"
  shows "drop 6 (beacon_header (take 6 (drop 6 frame)) seq (length ls) @ concat (map lease_bytes ls)) =
    take (19 + 10 * length ls) (drop 6 frame)"
proof -
  note f = parse_beacon_fields [OF assms]
  let ?d = "\<lambda>i. drop i frame"
  have "take (19 + 10 * length ls) (?d 6) =
     take 6 (?d 6) @ take 2 (?d 12) @ take 4 (?d 14) @ take 1 (?d 18) @ take 4 (?d 19) @ take 2 (?d 23)
       @ take (10 * length ls) (?d 25)"
    using take_add [of 6 "13 + 10 * length ls" "?d 6"] take_add [of 2 "11 + 10 * length ls" "?d 12"]
      take_add [of 4 "7 + 10 * length ls" "?d 14"] take_add [of 1 "6 + 10 * length ls" "?d 18"]
      take_add [of 4 "2 + 10 * length ls" "?d 19"] take_add [of 2 "10 * length ls" "?d 23"]
    by (simp add: add.commute)
  moreover have "take 1 (?d 18) = [1]" using f(1,4) by (simp add: take_Suc hd_drop_conv_nth)
  ultimately show ?thesis using f by (simp add: beacon_header_def pad_exact)
qed

section \<open>Properties\<close>

text \<open>C14: Every heartbeat the hub encodes is well formed and is read back: the frame is built
  without a panic, is a broadcast frame from the given address with the heartbeat ethertype,
  has 25 + 10 n bytes for its n leases, is recognised, and parses to the sequence number and
  the first 32 leases of the table.\<close>

theorem beacon_roundtrip:
  "\<exists>frame. encode_beacon src seq ls = Some frame \<and>
     length frame = 25 + 10 * min 32 (length ls) \<and>
     take 14 frame = replicate 6 0xff @ pad 6 src @ [0x88, 0xB5] \<and>
     is_beacon frame = Some True \<and>
     parse_beacon frame = Some (Inr (seq, take 32 ls))"
proof -
  obtain frame where f: "encode_beacon src seq ls = Some frame"
      "parse_beacon frame = Some (Inr (seq, take max_leases ls))"
    using encode_beacon_parse by blast
  then have "frame = beacon_header src seq (length (take max_leases ls)) @ concat (map lease_bytes (take max_leases ls))"
    by (simp add: encode_beacon_layout Let_def)
  then have "length frame = 25 + 10 * min 32 (length ls)"
      "take 14 frame = replicate 6 0xff @ pad 6 src @ [0x88, 0xB5]"
    by (simp_all add: max_leases_def min.commute beacon_header_def put16_def beacon_ethertype_def)
  with f parse_beacon_sound(1) [OF f(2)] show ?thesis by (simp add: max_leases_def)
qed

text \<open>C15: Parsing a heartbeat is total and exact: on every byte string the parser returns without
  a panic, and when it accepts one, encoding the sequence number and leases it returned with
  the frame's own source address gives back the bytes it read, destination address apart.\<close>

theorem beacon_parse_exact:
  "(\<exists>r. parse_beacon frame = Some r) \<and>
   (\<forall>seq ls. parse_beacon frame = Some (Inr (seq, ls)) \<longrightarrow>
      (\<exists>f. encode_beacon (take 6 (drop 6 frame)) seq ls = Some f \<and> length f \<le> length frame \<and>
           length ls \<le> 32 \<and> drop 6 f = take (length f - 6) (drop 6 frame)))"
proof (intro conjI allI impI)
  show "\<exists>r. parse_beacon frame = Some r" using parse_beacon_total by blast
  fix seq ls assume a: "parse_beacon frame = Some (Inr (seq, ls))"
  note s = parse_beacon_sound [OF a]
  let ?f = "beacon_header (take 6 (drop 6 frame)) seq (length ls) @ concat (map lease_bytes ls)"
  have "encode_beacon (take 6 (drop 6 frame)) seq ls = Some ?f"
    using s(2) by (simp add: encode_beacon_layout Let_def)
  with s beacon_prefix [OF a] show "\<exists>f. encode_beacon (take 6 (drop 6 frame)) seq ls = Some f \<and>
      length f \<le> length frame \<and> length ls \<le> 32 \<and> drop 6 f = take (length f - 6) (drop 6 frame)"
    by (intro exI [of _ ?f]) (simp add: max_leases_def)
qed

definition beacon_sample :: frame where
  "beacon_sample = replicate 6 0xff @ [2, 0, 0, 0, 0, 1, 0x88, 0xB5, 0x56, 0x44, 0x48, 0x42, 1, 0, 0, 0, 7, 0, 1,
     2, 0, 0, 0, 0, 9, 10, 0, 2, 15, 0]"

lemma beacon_parse_exact_witness:
  "\<exists>f. encode_beacon (take 6 (drop 6 beacon_sample)) 7 [\<lparr>l_mac = MAC 2 0 0 0 0 9, l_ip = IP4 10 0 2 15\<rparr>] = Some f \<and>
     length f \<le> length beacon_sample \<and> length [\<lparr>l_mac = MAC 2 0 0 0 0 9, l_ip = IP4 10 0 2 15\<rparr>] \<le> 32 \<and>
     drop 6 f = take (length f - 6) (drop 6 beacon_sample)"
proof -
  have "parse_beacon beacon_sample = Some (Inr (7, [\<lparr>l_mac = MAC 2 0 0 0 0 9, l_ip = IP4 10 0 2 15\<rparr>]))"
    by code_simp
  with beacon_parse_exact [of beacon_sample] show ?thesis by blast
qed

end
