(* ===== verification/Config.thy ===== *)
theory Config
  imports GoStd
begin

text \<open>
  The configuration of \<^verbatim>\<open>internal/config/config.go\<close>: the defaults, loading, the
  \<^verbatim>\<open>ports:\<close> rules and the VNL parameter string. The YAML decoder is a third-party
  package and an argument of \<open>load\<close>; it decodes into the record it is given.
\<close>

section \<open>Data\<close>

record forward_rule =
  f_udp :: bool
  f_host_ip :: string
  f_host_port :: u16
  f_guest_ip :: string
  f_guest_port :: u16
  f_last_octet :: int

record config =
  cf_ipv4 :: bool
  cf_ipv6 :: bool
  cf_switch :: "bool option"
  cf_socket :: string
  cf_socket_file_location :: string
  cf_socket_mode :: u32
  cf_uplink :: string
  cf_network :: string
  cf_gateway :: string
  cf_nameserver :: string
  cf_dhcp_start :: string
  cf_hostname :: string
  cf_mtu :: int
  cf_portfwd :: bool
  cf_ports :: "string list"
  cf_wireguard_conf_path :: string
  cf_batch :: int

definition defaults :: config where
  "defaults = \<lparr>cf_ipv4 = True, cf_ipv6 = False, cf_switch = None, cf_socket = '''',
     cf_socket_file_location = '''', cf_socket_mode = 0, cf_uplink = ''slirp'',
     cf_network = ''10.0.2.0/24'', cf_gateway = ''10.0.2.2'', cf_nameserver = ''10.0.2.3'',
     cf_dhcp_start = ''10.0.2.15'', cf_hostname = '''', cf_mtu = 0, cf_portfwd = False, cf_ports = [],
     cf_wireguard_conf_path = '''', cf_batch = 16\<rparr>"

section \<open>Loading\<close>

text \<open>What \<^verbatim>\<open>os.ReadFile\<close> returns.\<close>

datatype file_read = NotExist | ReadError string | Contents bytes

datatype load_error = ReadFailed string | YamlFailed string

definition load :: "(bytes \<Rightarrow> config \<Rightarrow> string + config) \<Rightarrow> file_read \<Rightarrow> load_error + config" where
  "load unmarshal file = (case file of
       NotExist \<Rightarrow> Inr defaults
     | ReadError e \<Rightarrow> Inl (ReadFailed e)
     | Contents data \<Rightarrow> (case unmarshal data defaults of
           Inl e \<Rightarrow> Inl (YamlFailed e)
         | Inr cfg \<Rightarrow> Inr (if cf_socket_file_location cfg \<noteq> ''''
                           then cfg\<lparr>cf_socket := cf_socket_file_location cfg\<rparr> else cfg)))"

definition switch_enabled :: "config \<Rightarrow> bool" where
  "switch_enabled c \<longleftrightarrow> cf_switch c = None \<or> the (cf_switch c)"

section \<open>Port rules\<close>

datatype port_error =
    BadOctet string
  | OctetRange int
  | BadAddress string
  | BadPorts string string
  | MalformedEntry string

definition two_ports :: "string \<Rightarrow> string \<Rightarrow> port_error + (u16 \<times> u16)" where
  "two_ports host guest =
     (case (parse_uint16 (trim_space host), parse_uint16 (trim_space guest)) of
        (Some hp, Some gp) \<Rightarrow>
          if hp = 0 \<or> hp > 65535 \<or> gp = 0 \<or> gp > 65535 then Inl (BadPorts host guest)
          else Inr (of_nat hp, of_nat gp)
      | _ \<Rightarrow> Inl (BadPorts host guest))"

definition empty_rule :: "bool \<Rightarrow> forward_rule" where
  "empty_rule udp = \<lparr>f_udp = udp, f_host_ip = '''', f_host_port = 0, f_guest_ip = '''', f_guest_port = 0,
     f_last_octet = 0\<rparr>"

definition set_ports :: "forward_rule \<Rightarrow> string \<Rightarrow> string \<Rightarrow> port_error + forward_rule" where
  "set_ports f host guest = (case two_ports host guest of
       Inl e \<Rightarrow> Inl e
     | Inr (hp, gp) \<Rightarrow> Inr (f\<lparr>f_host_port := hp, f_guest_port := gp\<rparr>))"

definition pinned_address :: "string \<Rightarrow> forward_rule \<Rightarrow> port_error + forward_rule" where
  "pinned_address addr f =
     (if has_prefix addr ''.'' then
        (case atoi (drop 1 addr) of
           None \<Rightarrow> Inl (BadOctet (drop 1 addr))
         | Some n \<Rightarrow> if n < 1 \<or> n > 254 then Inl (OctetRange n) else Inr (f\<lparr>f_last_octet := n\<rparr>))
      else if parse_ip addr = [] then Inl (BadAddress addr)
      else Inr (f\<lparr>f_guest_ip := addr\<rparr>))"

text \<open>One iteration of the loop of \<^verbatim>\<open>ParsePorts\<close>.\<close>

definition parse_entry :: "string \<Rightarrow> port_error + forward_rule" where
  "parse_entry raw = (
     let spec = trim_space raw;
         (udp, spec) =
           (if has_prefix spec ''udp '' then (True, trim_space (drop 4 spec))
            else if has_prefix spec ''tcp '' then (False, trim_space (drop 4 spec))
            else (False, spec)) in
     case split_on CHR '':'' spec of
       [host, guest] \<Rightarrow> set_ports (empty_rule udp) host guest
     | [addr, host, guest] \<Rightarrow>
         (case pinned_address (trim_space addr) (empty_rule udp) of
            Inl e \<Rightarrow> Inl e
          | Inr f \<Rightarrow> set_ports f host guest)
     | _ \<Rightarrow> Inl (MalformedEntry raw))"

fun parse_ports :: "string list \<Rightarrow> port_error + forward_rule list" where
  "parse_ports [] = Inr []"
| "parse_ports (raw # raws) = (case parse_entry raw of
      Inl e \<Rightarrow> Inl e
    | Inr f \<Rightarrow> (case parse_ports raws of Inl e \<Rightarrow> Inl e | Inr fs \<Rightarrow> Inr (f # fs)))"

section \<open>VNL parameters\<close>

definition is_one_of :: "string \<Rightarrow> string list \<Rightarrow> bool" where
  "is_one_of v vs \<longleftrightarrow> v \<in> set vs"

text \<open>One token of the parameter string.\<close>

definition apply_token :: "string \<Rightarrow> config \<Rightarrow> config" where
  "apply_token tok c = (case cut_at CHR ''='' tok of
       None \<Rightarrow>
         if tok = ''switch'' then c\<lparr>cf_switch := Some True\<rparr>
         else if tok = ''noswitch'' then c\<lparr>cf_switch := Some False\<rparr>
         else c
     | Some (k, v) \<Rightarrow>
         if k = ''v6'' then c\<lparr>cf_ipv6 := is_one_of v [''1'', ''true'']\<rparr>
         else if k = ''mtu'' then (case atoi v of Some n \<Rightarrow> c\<lparr>cf_mtu := n\<rparr> | None \<Rightarrow> c)
         else if k = ''switch'' then c\<lparr>cf_switch := Some (is_one_of v [''1'', ''true'', ''yes''])\<rparr>
         else if k = ''socket'' then c\<lparr>cf_socket := v\<rparr>
         else if k = ''uplink'' then c\<lparr>cf_uplink := v\<rparr>
         else if k = ''dhcp_start'' then c\<lparr>cf_dhcp_start := v\<rparr>
         else if k = ''network'' then c\<lparr>cf_network := v\<rparr>
         else if is_one_of k [''gateway'', ''host'', ''addr''] then c\<lparr>cf_gateway := hd (split_on CHR ''/'' v)\<rparr>
         else if k = ''batch'' then (case atoi v of Some n \<Rightarrow> c\<lparr>cf_batch := n\<rparr> | None \<Rightarrow> c)
         else c)"

definition apply_vnl :: "string \<Rightarrow> config \<Rightarrow> config" where
  "apply_vnl params c =
     (if params = '''' then c
      else fold (\<lambda>tok c. if tok = '''' then c else apply_token tok c) (split_on CHR ''/'' params) c)"

section \<open>Trimming\<close>

text \<open>Text that starts and ends with a printable ASCII character is not trimmed.\<close>

definition plain :: "char \<Rightarrow> bool" where
  "plain c \<longleftrightarrow> (of_char c :: nat) < 128 \<and> c \<notin> set ascii_spaces"

lemma space_runes_not_plain:
  "\<forall>r \<in> set space_runes. r \<noteq> [] \<and> \<not> plain (hd r) \<and> \<not> plain (last r)"
  by code_simp

lemma trim_by_id:
  assumes "\<forall>r \<in> set R. r \<noteq> [] \<and> \<not> plain (hd r)" "s = [] \<or> plain (hd s)"
  shows "trim_by R s = s"
proof -
  have "find (\<lambda>r. r \<noteq> [] \<and> take (length r) s = r) R = None"
  proof (rule ccontr)
    assume "find (\<lambda>r. r \<noteq> [] \<and> take (length r) s = r) R \<noteq> None"
    then obtain r where "r \<in> set R" "r \<noteq> []" "take (length r) s = r"
      by (auto simp: find_None_iff)
    then have "s \<noteq> []" "hd s = hd r" by (auto, metis hd_take length_greater_0_conv)
    with assms \<open>r \<in> set R\<close> show False by auto
  qed
  then show ?thesis by (simp add: trim_by.simps)
qed

lemma trim_space_plain:
  assumes "s = [] \<or> plain (hd s) \<and> plain (last s)"
  shows "trim_space s = s"
proof -
  have "trim_by space_runes s = s"
    using assms space_runes_not_plain by (intro trim_by_id) auto
  moreover have "trim_by (map rev space_runes) (rev s) = rev s"
    using assms space_runes_not_plain by (intro trim_by_id) (auto simp: hd_rev)
  ultimately show ?thesis by (simp add: trim_space_def)
qed

lemma plain_digit: "d < 10 \<Longrightarrow> plain (digit_char d)"
proof -
  have "\<forall>d \<in> set [0..<10]. plain (digit_char d)" by code_simp
  then show "d < 10 \<Longrightarrow> plain (digit_char d)" by simp
qed

lemma plain_dec [simp]: "plain (hd (dec n))" "plain (last (dec n))"
  by (metis dec_digits dec_nonempty hd_in_set plain_digit)
    (metis dec_digits dec_nonempty last_in_set plain_digit)

lemma trim_space_dec [simp]: "trim_space (dec n) = dec n"
  by (rule trim_space_plain) simp

section \<open>Printing a rule\<close>

text \<open>
  The configuration entry of a rule, and the rules the syntax can express: ports from 1 to
  65535 and a guest that is the fallback, a last octet or an address.
\<close>

definition render_rule :: "forward_rule \<Rightarrow> string" where
  "render_rule f =
     (if f_udp f then ''udp '' else '''') @
     (if f_last_octet f \<noteq> 0 then ''.'' @ dec (nat (f_last_octet f)) @ '':''
      else if f_guest_ip f \<noteq> '''' then f_guest_ip f @ '':'' else '''') @
     dec (unat (f_host_port f)) @ '':'' @ dec (unat (f_guest_port f))"

definition rule_ok :: "forward_rule \<Rightarrow> bool" where
  "rule_ok f \<longleftrightarrow> f_host_ip f = '''' \<and> f_host_port f \<noteq> 0 \<and> f_guest_port f \<noteq> 0 \<and>
     (if f_last_octet f = 0 then f_guest_ip f = '''' \<or> to4 (parse_ip (f_guest_ip f)) \<noteq> None
      else f_guest_ip f = '''' \<and> 1 \<le> f_last_octet f \<and> f_last_octet f \<le> 254)"

definition canonical_guest :: "forward_rule \<Rightarrow> bool" where
  "canonical_guest f \<longleftrightarrow> f_guest_ip f = '''' \<or> (\<exists>a. f_guest_ip f = ip4_string a)"

lemma two_ports_dec:
  assumes "p \<noteq> 0" "q \<noteq> 0"
  shows "two_ports (dec (unat p)) (dec (unat q)) = Inr (p, q)"
proof -
  have "unat p \<le> 65535" "unat q \<le> 65535"
    using u16_bound [of p] u16_bound [of q] by simp_all
  with assms show ?thesis
    by (simp add: two_ports_def parse_uint16_def unat_eq_0)
qed

lemma atoi_dec: "int n < 2 ^ 63 \<Longrightarrow> atoi (dec n) = Some (int n)"
proof -
  assume n: "int n < 2 ^ 63"
  obtain c r where d: "dec n = c # r" by (cases "dec n") simp_all
  have "\<And>x. x \<in> {CHR ''-'', CHR ''+''} \<Longrightarrow> x \<notin> set (dec n)"
    by (auto intro!: dec_not_in)
  then have "c \<noteq> CHR ''-''" "c \<noteq> CHR ''+''" using d by (metis insertCI list.set_intros(1))+
  with d n parse_uint_dec [of n] show ?thesis by (simp add: atoi_def)
qed

lemma ip4_string_plain [simp]: "plain (hd (ip4_string a))" "plain (last (ip4_string a))" "ip4_string a \<noteq> []"
    "CHR '':'' \<notin> set (ip4_string a)"
  by (cases a; simp add: ip4_string_def)+

lemma dec_not_ut [simp]: "CHR ''u'' \<notin> set (dec n)" "CHR ''t'' \<notin> set (dec n)"
  by (rule dec_not_in, simp)+

definition rule_tail :: "forward_rule \<Rightarrow> string" where
  "rule_tail f =
     (if f_last_octet f \<noteq> 0 then ''.'' @ dec (nat (f_last_octet f)) @ '':''
      else if f_guest_ip f \<noteq> '''' then f_guest_ip f @ '':'' else '''') @
     dec (unat (f_host_port f)) @ '':'' @ dec (unat (f_guest_port f))"

lemma render_rule_tail: "render_rule f = (if f_udp f then ''udp '' else '''') @ rule_tail f"
  by (simp add: render_rule_def rule_tail_def)

lemma hd_dec_not [simp]: "hd (dec n) \<noteq> CHR ''u''" "hd (dec n) \<noteq> CHR ''t''" "hd (dec n) \<noteq> CHR ''.''"
  by (metis hd_in_set dec_nonempty dec_not_special dec_not_ut)+

lemma hd_ip4_string_not [simp]: "hd (ip4_string a) \<noteq> CHR ''u''" "hd (ip4_string a) \<noteq> CHR ''t''"
    "hd (ip4_string a) \<noteq> CHR ''.''"
  by (cases a; simp add: ip4_string_def)+

lemma rule_tail_plain:
  assumes "canonical_guest f"
  shows "rule_tail f \<noteq> []" "plain (hd (rule_tail f))" "plain (last (rule_tail f))"
    "hd (rule_tail f) \<noteq> CHR ''u''" "hd (rule_tail f) \<noteq> CHR ''t''"
proof -
  have "plain (CHR ''.'')" by code_simp
  with assms show "rule_tail f \<noteq> []" "plain (hd (rule_tail f))" "plain (last (rule_tail f))"
    "hd (rule_tail f) \<noteq> CHR ''u''" "hd (rule_tail f) \<noteq> CHR ''t''"
    by (auto simp: rule_tail_def canonical_guest_def)
qed

lemma has_prefix_hd: "p \<noteq> [] \<Longrightarrow> has_prefix s p \<Longrightarrow> hd s = hd p"
  by (cases p; cases s) (auto simp: has_prefix_def)

lemma pinned_address_canonical:
  assumes "rule_ok f" "canonical_guest f"
  shows "f_last_octet f \<noteq> 0 \<Longrightarrow> pinned_address (''.'' @ dec (nat (f_last_octet f))) g = Inr (g\<lparr>f_last_octet := f_last_octet f\<rparr>)"
    "f_last_octet f = 0 \<Longrightarrow> f_guest_ip f \<noteq> '''' \<Longrightarrow> pinned_address (f_guest_ip f) g = Inr (g\<lparr>f_guest_ip := f_guest_ip f\<rparr>)"
proof -
  assume n: "f_last_octet f \<noteq> 0"
  with assms(1) have "1 \<le> f_last_octet f" "f_last_octet f \<le> 254" by (auto simp: rule_ok_def)
  then show "pinned_address (''.'' @ dec (nat (f_last_octet f))) g = Inr (g\<lparr>f_last_octet := f_last_octet f\<rparr>)"
    by (simp add: pinned_address_def has_prefix_def atoi_dec)
next
  assume n: "f_last_octet f = 0" "f_guest_ip f \<noteq> ''''"
  with assms(2) obtain a where a: "f_guest_ip f = ip4_string a" by (auto simp: canonical_guest_def)
  have "\<not> has_prefix (ip4_string a) ''.''" using has_prefix_hd [of "''.''" "ip4_string a"] by auto
  then show "pinned_address (f_guest_ip f) g = Inr (g\<lparr>f_guest_ip := f_guest_ip f\<rparr>)"
    by (simp add: pinned_address_def a v4_prefix_def)
qed

lemma trim_space_ip4 [simp]: "trim_space (ip4_string a) = ip4_string a"
  by (rule trim_space_plain) simp

lemma trim_space_dot_dec [simp]: "trim_space (CHR ''.'' # dec n) = CHR ''.'' # dec n"
proof (rule trim_space_plain)
  have "plain (CHR ''.'')" by code_simp
  then show "CHR ''.'' # dec n = [] \<or> plain (hd (CHR ''.'' # dec n)) \<and> plain (last (CHR ''.'' # dec n))" by simp
qed

lemma split_rule_tail:
  assumes "rule_ok f" "canonical_guest f"
  shows "split_on CHR '':'' (rule_tail f) =
     (if f_last_octet f \<noteq> 0 then [''.'' @ dec (nat (f_last_octet f))]
      else if f_guest_ip f \<noteq> '''' then [f_guest_ip f] else []) @
     [dec (unat (f_host_port f)), dec (unat (f_guest_port f))]"
proof -
  have pair: "split_on CHR '':'' (dec a @ CHR '':'' # dec b) = [dec a, dec b]" for a b
    by (simp add: split_on_cons split_on_none)
  have "CHR '':'' \<notin> set (CHR ''.'' # dec (nat (f_last_octet f)))" by simp
  note this [THEN split_on_cons]
  moreover have "CHR '':'' \<notin> set (f_guest_ip f)" using assms(2) by (auto simp: canonical_guest_def)
  note this [THEN split_on_cons]
  ultimately show ?thesis by (simp add: rule_tail_def pair)
qed

lemma parse_entry_render:
  assumes "rule_ok f" "canonical_guest f"
  shows "parse_entry (render_rule f) = Inr f"
proof -
  note t = rule_tail_plain [OF assms(2)]
  have "plain CHR ''u''" by code_simp
  then have whole: "trim_space (render_rule f) = render_rule f"
    using t by (intro trim_space_plain) (simp add: render_rule_tail)
  have tail: "trim_space (rule_tail f) = rule_tail f"
    using t by (intro trim_space_plain) simp
  have no: "\<not> has_prefix (rule_tail f) ''udp ''" "\<not> has_prefix (rule_tail f) ''tcp ''"
    using t has_prefix_hd [of "''udp ''" "rule_tail f"] has_prefix_hd [of "''tcp ''" "rule_tail f"] by auto
  have ports: "f_host_port f \<noteq> 0" "f_guest_port f \<noteq> 0" "f_host_ip f = ''''"
    using assms(1) by (simp_all add: rule_ok_def)
  have rec: "\<lparr>f_udp = f_udp f, f_host_ip = '''', f_host_port = f_host_port f, f_guest_ip = f_guest_ip f,
      f_guest_port = f_guest_port f, f_last_octet = f_last_octet f\<rparr> = f"
    using ports by (cases f) simp
  have body: "(case split_on CHR '':'' (rule_tail f) of
       [host, guest] \<Rightarrow> set_ports (empty_rule (f_udp f)) host guest
     | [addr, host, guest] \<Rightarrow>
         (case pinned_address (trim_space addr) (empty_rule (f_udp f)) of
            Inl e \<Rightarrow> Inl e | Inr f \<Rightarrow> set_ports f host guest)
     | _ \<Rightarrow> Inl (MalformedEntry (render_rule f))) = Inr f"
  proof (cases "f_last_octet f = 0")
    case False
    then have "f_guest_ip f = ''''" using assms(1) by (simp add: rule_ok_def)
    with False rec show ?thesis
      using pinned_address_canonical(1) [OF assms] ports
      by (simp add: split_rule_tail [OF assms] set_ports_def two_ports_dec empty_rule_def)
  next
    case True
    show ?thesis
    proof (cases "f_guest_ip f = ''''")
      case True
      with \<open>f_last_octet f = 0\<close> rec ports show ?thesis
        by (simp add: split_rule_tail [OF assms] set_ports_def two_ports_dec empty_rule_def)
    next
      case False
      with assms(2) obtain a where "f_guest_ip f = ip4_string a" by (auto simp: canonical_guest_def)
      with False \<open>f_last_octet f = 0\<close> rec ports pinned_address_canonical(2) [OF assms] show ?thesis
        by (simp add: split_rule_tail [OF assms] set_ports_def two_ports_dec empty_rule_def)
    qed
  qed
  show ?thesis
  proof (cases "f_udp f")
    case True
    then have "render_rule f = ''udp '' @ rule_tail f" by (simp add: render_rule_tail)
    then have "has_prefix (render_rule f) ''udp ''" "drop 4 (render_rule f) = rule_tail f"
      by (simp_all add: has_prefix_def)
    with body [unfolded \<open>f_udp f\<close> [THEN eqTrueI]] tail whole show ?thesis by (simp add: parse_entry_def Let_def)
  next
    case False
    then have "render_rule f = rule_tail f" "f_udp f = False" by (simp_all add: render_rule_tail)
    with body [unfolded this] no whole show ?thesis by (simp add: parse_entry_def Let_def)
  qed
qed

section \<open>What is accepted\<close>

lemma of_nat16_nonzero: "n \<noteq> 0 \<Longrightarrow> n < 65536 \<Longrightarrow> (of_nat n :: u16) \<noteq> 0"
  using unat_of_nat16 [of n] by auto

lemma two_ports_Inr: "two_ports h g = Inr (p, q) \<Longrightarrow> p \<noteq> 0 \<and> q \<noteq> 0"
  using of_nat16_nonzero by (fastforce simp: two_ports_def split: option.splits if_splits)

lemma set_ports_Inr: "set_ports f h g = Inr f' \<Longrightarrow>
    \<exists>p q. p \<noteq> 0 \<and> q \<noteq> 0 \<and> f' = f\<lparr>f_host_port := p, f_guest_port := q\<rparr>"
  by (auto simp: set_ports_def split: sum.splits dest: two_ports_Inr)

lemma set_trim_by: "set (trim_by R s) \<subseteq> set s"
proof (induction R s rule: trim_by.induct)
  case (1 R s)
  then show ?case
    by (subst trim_by.simps) (auto split: option.splits dest: in_set_dropD)
qed

lemma set_trim_space: "c \<notin> set s \<Longrightarrow> c \<notin> set (trim_space s)"
  using set_trim_by [of space_runes s] set_trim_by [of "map rev space_runes" "rev (trim_by space_runes s)"]
  by (auto simp: trim_space_def)

lemma parse_ip_dotted:
  assumes "parse_ip s \<noteq> []" "CHR '':'' \<notin> set s"
  shows "to4 (parse_ip s) \<noteq> None"
proof -
  from assms obtain v where "parse_ipv4 s = Some v" "parse_ip s = v4_prefix @ v"
    by (auto simp: parse_ip_def parse_addr_def find_Some_iff split: option.splits if_splits dest: nth_mem)
  then show ?thesis by (simp add: to4_def parse_ipv4_length)
qed

lemma pinned_address_Inr:
  assumes "pinned_address addr (empty_rule u) = Inr f" "CHR '':'' \<notin> set addr"
  shows "f_host_ip f = '''' \<and> (if f_last_octet f = 0 then to4 (parse_ip (f_guest_ip f)) \<noteq> None
      else f_guest_ip f = '''' \<and> 1 \<le> f_last_octet f \<and> f_last_octet f \<le> 254)"
  using assms parse_ip_dotted [of addr]
  by (auto simp: pinned_address_def empty_rule_def split: if_splits option.splits)

lemma split_trimmed_pieces:
  "split_on c s = ps \<Longrightarrow> p \<in> set ps \<Longrightarrow> c \<notin> set (trim_space p)"
  using split_on_pieces set_trim_space by metis

lemma parse_entry_sound:
  assumes "parse_entry raw = Inr f"
  shows "rule_ok f"
proof -
  obtain udp spec where body: "(case split_on CHR '':'' spec of
       [host, guest] \<Rightarrow> set_ports (empty_rule udp) host guest
     | [addr, host, guest] \<Rightarrow>
         (case pinned_address (trim_space addr) (empty_rule udp) of
            Inl e \<Rightarrow> Inl e | Inr f \<Rightarrow> set_ports f host guest)
     | _ \<Rightarrow> Inl (MalformedEntry raw)) = Inr f"
    using assms by (auto simp: parse_entry_def Let_def split: if_splits)
  then consider (two) h g where "set_ports (empty_rule udp) h g = Inr f"
    | (three) a h g f0 where "split_on CHR '':'' spec = [a, h, g]"
        "pinned_address (trim_space a) (empty_rule udp) = Inr f0" "set_ports f0 h g = Inr f"
    by (auto split: list.splits sum.splits)
  then show ?thesis
  proof cases
    case two
    then show ?thesis using set_ports_Inr [of "empty_rule udp" h g f]
      by (auto simp: rule_ok_def empty_rule_def)
  next
    case three
    from split_trimmed_pieces [OF three(1), of a] have "CHR '':'' \<notin> set (trim_space a)" by simp
    from pinned_address_Inr [OF three(2) this] set_ports_Inr [OF three(3)] show ?thesis
      by (auto simp: rule_ok_def split: if_splits)
  qed
qed

lemma parse_ports_Inr: "parse_ports raws = Inr fs \<longleftrightarrow> map parse_entry raws = map Inr fs"
proof (induction raws arbitrary: fs)
  case (Cons raw raws)
  show ?case
  proof (cases "parse_ports raws")
    case (Inl e)
    then have "map parse_entry raws \<noteq> map Inr gs" for gs using Cons by auto
    with Inl show ?thesis by (auto split: sum.splits simp: Cons_eq_map_conv)
  next
    case (Inr gs)
    with Cons [of gs] show ?thesis by (auto split: sum.splits simp: Cons_eq_map_conv)
  qed
qed auto

lemma parse_ports_Inl: "parse_ports raws = Inl e \<longleftrightarrow>
    (\<exists>i < length raws. parse_entry (raws ! i) = Inl e \<and> (\<forall>j < i. \<exists>f. parse_entry (raws ! j) = Inr f))"
proof (induction raws)
  case (Cons raw raws)
  show ?case
  proof (cases "parse_entry raw")
    case (Inl e')
    have "parse_entry raw = Inl e" if i: "parse_entry ((raw # raws) ! i) = Inl e"
        "\<forall>j < i. \<exists>f. parse_entry ((raw # raws) ! j) = Inr f" for i
    proof (cases i)
      case (Suc k)
      with i(2) Inl show ?thesis by auto
    qed (use i in simp)
    moreover have "\<exists>i < length (raw # raws). parse_entry ((raw # raws) ! i) = Inl e \<and>
        (\<forall>j < i. \<exists>f. parse_entry ((raw # raws) ! j) = Inr f)" if "parse_entry raw = Inl e"
      using that by (intro exI [of _ 0]) simp
    ultimately show ?thesis using Inl by auto
  next
    case (Inr f)
    have "(\<exists>i < length (raw # raws). parse_entry ((raw # raws) ! i) = Inl e \<and>
        (\<forall>j < i. \<exists>f. parse_entry ((raw # raws) ! j) = Inr f)) \<longleftrightarrow>
      (\<exists>i < length raws. parse_entry (raws ! i) = Inl e \<and> (\<forall>j < i. \<exists>f. parse_entry (raws ! j) = Inr f))"
      (is "?l \<longleftrightarrow> ?r")
    proof
      assume ?l
      then obtain i where i: "i < length (raw # raws)" "parse_entry ((raw # raws) ! i) = Inl e"
          "\<forall>j < i. \<exists>f. parse_entry ((raw # raws) ! j) = Inr f" by blast
      with Inr obtain k where "i = Suc k" by (cases i) auto
      with i show ?r by (intro exI [of _ k]) fastforce
    next
      assume ?r
      then obtain i where "i < length raws" "parse_entry (raws ! i) = Inl e"
          "\<forall>j < i. \<exists>f. parse_entry (raws ! j) = Inr f" by blast
      with Inr show ?l by (intro exI [of _ "Suc i"]) (auto simp: less_Suc_eq_0_disj)
    qed
    with Inr Cons show ?thesis by (auto split: sum.splits)
  qed
qed simp

text \<open>C24: The port rules round-trip and nothing invalid is accepted. Printing rules with nonzero
  ports whose guest is the fallback, a last octet from 1 to 254 or an IPv4 address, TCP or
  UDP, and parsing the entries gives back exactly these rules in order.\<close>

theorem ports_roundtrip:
  assumes "\<And>f. f \<in> set fs \<Longrightarrow> rule_ok f \<and> canonical_guest f"
  shows "parse_ports (map render_rule fs) = Inr fs"
  using assms by (auto simp: parse_ports_Inr parse_entry_render)

definition rules_sample :: "forward_rule list" where
  "rules_sample =
    [\<lparr>f_udp = False, f_host_ip = '''', f_host_port = 2222, f_guest_ip = '''', f_guest_port = 22, f_last_octet = 0\<rparr>,
     \<lparr>f_udp = True, f_host_ip = '''', f_host_port = 5353, f_guest_ip = ip4_string (IP4 10 0 2 15), f_guest_port = 53,
      f_last_octet = 0\<rparr>,
     \<lparr>f_udp = False, f_host_ip = '''', f_host_port = 8080, f_guest_ip = '''', f_guest_port = 80, f_last_octet = 20\<rparr>]"

lemma ports_roundtrip_witness:
  "parse_ports (map render_rule rules_sample) = Inr rules_sample"
proof (rule ports_roundtrip)
  have "to4 (v4_prefix @ [10, 0, 2, 15]) \<noteq> None"
    using to4_mapped [of "IP4 10 0 2 15"] by (simp del: to4_mapped)
  then show "rule_ok f \<and> canonical_guest f" if "f \<in> set rules_sample" for f
    using that by (auto simp: rules_sample_def rule_ok_def canonical_guest_def)
qed

text \<open>C25: The parser of the port rules accepts all entries or none: it succeeds only when every
  entry parses, each then giving one rule in the entry's place with nonzero ports and a guest
  that is the fallback, a last octet from 1 to 254 or an IPv4 address; otherwise its error is
  the error of the first entry that does not parse.\<close>

theorem ports_sound:
  "case parse_ports raws of
     Inr fs \<Rightarrow> length fs = length raws \<and> (\<forall>i < length raws. parse_entry (raws ! i) = Inr (fs ! i) \<and> rule_ok (fs ! i))
   | Inl e \<Rightarrow> (\<exists>i < length raws. parse_entry (raws ! i) = Inl e \<and> (\<forall>j < i. \<exists>f. parse_entry (raws ! j) = Inr f))"
proof (cases "parse_ports raws")
  case (Inl e)
  then show ?thesis using parse_ports_Inl [of raws e] by simp
next
  case (Inr fs)
  then have m: "map parse_entry raws = map Inr fs" by (simp add: parse_ports_Inr)
  then have len: "length fs = length raws" by (metis length_map)
  have "parse_entry (raws ! i) = Inr (fs ! i)" if "i < length raws" for i
    using m that len by (metis nth_map)
  with len Inr show ?thesis by (auto intro: parse_entry_sound)
qed

lemma ports_sound_witness:
  "case parse_ports [''2222:22'', ''0:80''] of
     Inr fs \<Rightarrow> length fs = length [''2222:22'', ''0:80''] \<and>
       (\<forall>i < length [''2222:22'', ''0:80'']. parse_entry ([''2222:22'', ''0:80''] ! i) = Inr (fs ! i) \<and> rule_ok (fs ! i))
   | Inl e \<Rightarrow> (\<exists>i < length [''2222:22'', ''0:80'']. parse_entry ([''2222:22'', ''0:80''] ! i) = Inl e \<and>
       (\<forall>j < i. \<exists>f. parse_entry ([''2222:22'', ''0:80''] ! j) = Inr f))"
  by (rule ports_sound)

section \<open>The parameter string\<close>

text \<open>The values a key is given, in order.\<close>

definition vnl_values :: "string \<Rightarrow> string \<Rightarrow> string list" where
  "vnl_values key params =
     List.map_filter (\<lambda>tok. case cut_at CHR ''='' tok of
        Some (k, v) \<Rightarrow> if k = key then Some v else None | None \<Rightarrow> None) (split_on CHR ''/'' params)"

definition last_or :: "'a \<Rightarrow> 'a list \<Rightarrow> 'a" where
  "last_or d xs = (if xs = [] then d else last xs)"

lemma last_or_simps [simp]: "last_or d [] = d" "last_or d (x # xs) = last_or x xs"
  by (simp_all add: last_or_def)

text \<open>Folding assignments keeps the last one.\<close>

lemma fold_last_or:
  assumes "\<And>t c. get (upd t c) = (case sel t of Some v \<Rightarrow> v | None \<Rightarrow> get c)"
  shows "get (fold upd ts c) = last_or (get c) (List.map_filter sel ts)"
proof (induction ts arbitrary: c)
  case (Cons t ts)
  then show ?case
    by (cases "sel t") (simp_all add: assms List.map_filter_def)
qed (simp add: List.map_filter_def)

lemma cut_at_empty [simp]: "cut_at c '''' = None"
  by (simp add: cut_at_def)

lemma apply_vnl_fold: "apply_vnl params c =
    fold (\<lambda>tok c. if tok = '''' then c else apply_token tok c) (split_on CHR ''/'' params) c"
  by (cases params) (simp_all add: apply_vnl_def)

text \<open>
  A function of the configuration that does not read the switch, IPv6, MTU, gateway and
  batch fields sees of a token only what it does to the other four.
\<close>

lemma apply_token_frame:
  assumes "\<And>b. get (c\<lparr>cf_switch := b\<rparr>) = get c" "\<And>b. get (c\<lparr>cf_ipv6 := b\<rparr>) = get c"
    "\<And>n. get (c\<lparr>cf_mtu := n\<rparr>) = get c" "\<And>v. get (c\<lparr>cf_gateway := v\<rparr>) = get c"
    "\<And>n. get (c\<lparr>cf_batch := n\<rparr>) = get c"
  shows "get (apply_token t c) = (case cut_at CHR ''='' t of None \<Rightarrow> get c
     | Some (k, v) \<Rightarrow>
         if k = ''socket'' then get (c\<lparr>cf_socket := v\<rparr>)
         else if k = ''uplink'' then get (c\<lparr>cf_uplink := v\<rparr>)
         else if k = ''dhcp_start'' then get (c\<lparr>cf_dhcp_start := v\<rparr>)
         else if k = ''network'' then get (c\<lparr>cf_network := v\<rparr>) else get c)"
proof (cases "cut_at CHR ''='' t")
  case None
  then show ?thesis by (simp add: apply_token_def assms)
next
  case (Some p)
  obtain k v where p: "p = (k, v)" by fastforce
  show ?thesis
    by (simp add: Some p apply_token_def if_distrib [of get] option.case_distrib [of get] assms is_one_of_def
        cong: option.case_cong split: option.split)
qed

lemma apply_token_network: "cf_network (apply_token t c) = (case cut_at CHR ''='' t of Some (k, v) \<Rightarrow>
    if k = ''network'' then v else cf_network c | None \<Rightarrow> cf_network c)"
  by (simp add: apply_token_frame split: option.split)

lemma apply_token_uplink: "cf_uplink (apply_token t c) = (case cut_at CHR ''='' t of Some (k, v) \<Rightarrow>
    if k = ''uplink'' then v else cf_uplink c | None \<Rightarrow> cf_uplink c)"
  by (simp add: apply_token_frame split: option.split)

lemma apply_token_socket: "cf_socket (apply_token t c) = (case cut_at CHR ''='' t of Some (k, v) \<Rightarrow>
    if k = ''socket'' then v else cf_socket c | None \<Rightarrow> cf_socket c)"
  by (simp add: apply_token_frame split: option.split)

lemma apply_token_dhcp_start: "cf_dhcp_start (apply_token t c) = (case cut_at CHR ''='' t of Some (k, v) \<Rightarrow>
    if k = ''dhcp_start'' then v else cf_dhcp_start c | None \<Rightarrow> cf_dhcp_start c)"
  by (simp add: apply_token_frame split: option.split)

lemma apply_token_other:
  "cf_ports (apply_token t c) = cf_ports c"
  "cf_portfwd (apply_token t c) = cf_portfwd c"
  "cf_nameserver (apply_token t c) = cf_nameserver c"
  "cf_socket_mode (apply_token t c) = cf_socket_mode c"
  by (simp_all add: apply_token_frame split: option.split)

lemmas apply_token_fields =
  apply_token_network apply_token_uplink apply_token_socket apply_token_dhcp_start apply_token_other

lemma apply_vnl_last:
  "cf_network (apply_vnl params c) = last_or (cf_network c) (vnl_values ''network'' params)"
  "cf_uplink (apply_vnl params c) = last_or (cf_uplink c) (vnl_values ''uplink'' params)"
  "cf_socket (apply_vnl params c) = last_or (cf_socket c) (vnl_values ''socket'' params)"
  "cf_dhcp_start (apply_vnl params c) = last_or (cf_dhcp_start c) (vnl_values ''dhcp_start'' params)"
  unfolding apply_vnl_fold vnl_values_def
  by (rule fold_last_or; auto simp: apply_token_fields split: option.splits)+

lemma fold_keeps: "(\<And>t c. get (upd t c) = get c) \<Longrightarrow> get (fold upd ts c) = get c"
  by (induction ts arbitrary: c) auto

lemma apply_vnl_keeps:
  "cf_ports (apply_vnl params c) = cf_ports c" "cf_portfwd (apply_vnl params c) = cf_portfwd c"
  "cf_nameserver (apply_vnl params c) = cf_nameserver c" "cf_socket_mode (apply_vnl params c) = cf_socket_mode c"
  unfolding apply_vnl_fold by (rule fold_keeps; simp add: apply_token_fields)+

lemma in_map_filter: "y \<in> set (List.map_filter f xs) \<longleftrightarrow> (\<exists>x \<in> set xs. f x = Some y)"
  by (auto simp: List.map_filter_def intro!: rev_image_eqI)

lemma vnl_values_no_slash: "v \<in> set (vnl_values key params) \<Longrightarrow> CHR ''/'' \<notin> set v"
proof -
  assume "v \<in> set (vnl_values key params)"
  then obtain tok k where t: "tok \<in> set (split_on CHR ''/'' params)" "cut_at CHR ''='' tok = Some (k, v)"
    by (auto simp: vnl_values_def in_map_filter split: option.splits if_splits)
  then have "set v \<subseteq> set tok"
    by (auto simp: cut_at_def split: if_splits dest!: list.set_sel(2) [rotated] dest: set_dropWhileD)
  with split_on_pieces [OF t(1)] show ?thesis by blast
qed

lemma last_or_in: "xs \<noteq> [] \<Longrightarrow> last_or d xs \<in> set xs"
  by (simp add: last_or_def)

text \<open>The VNL string overrides the configuration file key by key: the network, uplink, socket
  and DHCP start are the last value the string gives them and otherwise the file's, and the
  string never touches the port rules, port forwarding, the nameserver or the socket mode.\<close>

theorem vnl_overrides:
  "let c' = apply_vnl params c in
     cf_network c' = last_or (cf_network c) (vnl_values ''network'' params) \<and>
     cf_uplink c' = last_or (cf_uplink c) (vnl_values ''uplink'' params) \<and>
     cf_socket c' = last_or (cf_socket c) (vnl_values ''socket'' params) \<and>
     cf_dhcp_start c' = last_or (cf_dhcp_start c) (vnl_values ''dhcp_start'' params) \<and>
     cf_ports c' = cf_ports c \<and> cf_portfwd c' = cf_portfwd c \<and> cf_nameserver c' = cf_nameserver c \<and>
     cf_socket_mode c' = cf_socket_mode c"
  by (simp add: apply_vnl_last apply_vnl_keeps)

text \<open>No VNL string can set a usable network or an absolute socket path: values are cut at
  every slash, so whatever network the string gives does not parse as a CIDR network, and a
  socket it gives contains no slash.\<close>

theorem vnl_network_unusable:
  assumes "vnl_values ''network'' params \<noteq> []"
  shows "parse_cidr (cf_network (apply_vnl params c)) = None \<and>
     (vnl_values ''socket'' params \<noteq> [] \<longrightarrow> CHR ''/'' \<notin> set (cf_socket (apply_vnl params c)))"
proof (intro conjI impI)
  have "CHR ''/'' \<notin> set (cf_network (apply_vnl params c))"
    unfolding apply_vnl_last by (rule vnl_values_no_slash [OF last_or_in [OF assms]])
  then show "parse_cidr (cf_network (apply_vnl params c)) = None"
    by (simp add: parse_cidr_def cut_at_def)
next
  assume "vnl_values ''socket'' params \<noteq> []"
  from vnl_values_no_slash [OF last_or_in [OF this]]
  show "CHR ''/'' \<notin> set (cf_socket (apply_vnl params c))" unfolding apply_vnl_last .
qed

lemma vnl_network_unusable_witness:
  "parse_cidr (cf_network (apply_vnl ''network=10.1.0.0/16'' defaults)) = None"
  by (rule conjunct1 [OF vnl_network_unusable]) code_simp

end
