(* ===== verification/Portfwd.thy ===== *)
theory Portfwd
  imports Config
begin

text \<open>
  Port forwarding from the host into the netstack, \<^verbatim>\<open>internal/portfwd/portfwd.go\<close>:
  starting one listener per rule with its all-or-nothing failure handling, and the UDP relay
  with its table of paths. The host's sockets are arguments: \<open>listen k udp addr\<close> says
  whether the \<open>k\<close>-th attempt to bind succeeds.
\<close>

section \<open>Which guest a rule names\<close>

datatype start_error =
    PortsInvalid port_error
  | NoFallback
  | FallbackNotIPv4
  | GuestUnusable string
  | ListenFailed string

text \<open>
  \<^verbatim>\<open>net.IP.String\<close> of the addresses \<open>Start\<close> prints: the caller has just tested that
  they are IPv4.
\<close>

definition ip_string :: "bytes \<Rightarrow> string" where
  "ip_string ip = (case to4 ip of Some a \<Rightarrow> ip4_string a | None \<Rightarrow> '''')"

definition rule_guest :: "bytes \<Rightarrow> forward_rule \<Rightarrow> start_error + string" where
  "rule_guest fallback r =
     (if f_guest_ip r = '''' \<and> to4 fallback = None then Inl NoFallback
      else
        let guest = (if f_guest_ip r = '''' then ip_string fallback else f_guest_ip r) in
        if 0 < f_last_octet r then
          (case to4 fallback of
             None \<Rightarrow> Inl FallbackNotIPv4
           | Some (IP4 a b c d) \<Rightarrow>
               let guest = ip_string (ip4_bytes (IP4 a b c (of_int (f_last_octet r)))) in
               if to4 (parse_ip guest) = None then Inl (GuestUnusable guest) else Inr guest)
        else if to4 (parse_ip guest) = None then Inl (GuestUnusable guest)
        else Inr guest)"

text \<open>\<^verbatim>\<open>net.JoinHostPort\<close>.\<close>

definition join_host_port :: "string \<Rightarrow> string \<Rightarrow> string" where
  "join_host_port host port =
     (if CHR '':'' \<in> set host then ''['' @ host @ '']:'' @ port else host @ '':'' @ port)"

definition listen_addr :: "forward_rule \<Rightarrow> string" where
  "listen_addr r = join_host_port (f_host_ip r) (dec (unat (f_host_port r)))"

section \<open>Starting the listeners\<close>

text \<open>
  What the call does to the outside: sockets opened and closed, by the number of the bind
  attempt, and relay goroutines started on them.
\<close>

datatype effect =
    Opened nat bool string
  | Closed nat
  | Serve nat string u16

type_synonym listens = "nat \<Rightarrow> bool \<Rightarrow> string \<Rightarrow> bool"

text \<open>The loop: \<open>k\<close> counts the bind attempts, \<open>opened\<close> the listeners so far.\<close>

definition abort :: "nat list \<Rightarrow> effect list" where
  "abort opened = map Closed opened"

fun start_rules :: "listens \<Rightarrow> bytes \<Rightarrow> forward_rule list \<Rightarrow> nat \<Rightarrow> nat list
    \<Rightarrow> effect list \<times> (start_error + nat list)" where
  "start_rules listen fallback [] k opened = ([], Inr opened)"
| "start_rules listen fallback (r # rs) k opened = (case rule_guest fallback r of
      Inl e \<Rightarrow> (abort opened, Inl e)
    | Inr guest \<Rightarrow>
        let addr = listen_addr r in
        if listen k (f_udp r) addr then
          (let (tr, res) = start_rules listen fallback rs (Suc k) (opened @ [k]) in
           (Opened k (f_udp r) addr # Serve k guest (f_guest_port r) # tr, res))
        else (abort opened, Inl (ListenFailed addr)))"

definition start :: "listens \<Rightarrow> config \<Rightarrow> bytes \<Rightarrow> effect list \<times> (start_error + nat list)" where
  "start listen cfg fallback = (case parse_ports (cf_ports cfg) of
       Inl e \<Rightarrow> ([], Inl (PortsInvalid e))
     | Inr rules \<Rightarrow> start_rules listen fallback rules 0 [])"

section \<open>The UDP relay\<close>

text \<open>
  A path: the netstack socket towards the guest, with whether its reading goroutine still
  runs and whether the socket is closed, the host sender it stands for and the time of its
  last datagram. A host sender is its IP in 16-byte form and its port.
\<close>

record upath =
  u_guest :: nat
  u_src :: "bytes \<times> u16"
  u_last :: int

record relay =
  paths :: "upath list"
  next_guest :: nat
  closed :: "nat set"
  readers :: "nat set"

definition new_relay :: relay where
  "new_relay = \<lparr>paths = [], next_guest = 0, closed = {}, readers = {}\<rparr>"

definition udp_idle :: int where
  "udp_idle = 30 * 1000000000"

text \<open>
  One datagram from host sender \<open>src\<close>: the path of the sender is found or, when the three
  netstack calls succeed (\<open>dial\<close>), created; the datagram is written to the path's guest
  socket, which \<open>wr\<close> says works for a socket that is not closed. The result is the guest
  socket the datagram went to, if any.
\<close>

definition find_path :: "bytes \<times> u16 \<Rightarrow> relay \<Rightarrow> upath option" where
  "find_path src s = find (\<lambda>p. u_src p = src) (paths s)"

definition add_path :: "bytes \<times> u16 \<Rightarrow> int \<Rightarrow> relay \<Rightarrow> relay" where
  "add_path src now s = s\<lparr>paths := paths s @ [\<lparr>u_guest = next_guest s, u_src = src, u_last = now\<rparr>],
     next_guest := next_guest s + 1, readers := insert (next_guest s) (readers s)\<rparr>"

definition touch :: "nat \<Rightarrow> int \<Rightarrow> relay \<Rightarrow> relay" where
  "touch g now s = s\<lparr>paths := map (\<lambda>p. if u_guest p = g then p\<lparr>u_last := now\<rparr> else p) (paths s)\<rparr>"

definition locate :: "bytes \<times> u16 \<Rightarrow> int \<Rightarrow> bool \<Rightarrow> relay \<Rightarrow> (relay \<times> nat) option" where
  "locate src now dial s = (case find_path src s of
       Some p \<Rightarrow> Some (touch (u_guest p) now s, u_guest p)
     | None \<Rightarrow> if dial then Some (add_path src now s, next_guest s) else None)"

definition relay_datagram :: "bytes \<times> u16 \<Rightarrow> int \<Rightarrow> bool \<Rightarrow> bool \<Rightarrow> relay \<Rightarrow> relay \<times> nat option" where
  "relay_datagram src now dial wr s = (case locate src now dial s of
       None \<Rightarrow> (s, None)
     | Some (s, g) \<Rightarrow>
         if wr \<and> g \<notin> closed s then (s, Some g)
         else (s\<lparr>closed := insert g (closed s)\<rparr>, None))"

text \<open>The reaper's tick: idle paths are closed and dropped.\<close>

definition reap :: "int \<Rightarrow> relay \<Rightarrow> relay" where
  "reap now s = s\<lparr>
     paths := filter (\<lambda>p. \<not> now - u_last p > udp_idle) (paths s),
     closed := closed s \<union> u_guest ` {p \<in> set (paths s). now - u_last p > udp_idle}\<rparr>"

text \<open>
  The goroutine reading guest socket \<open>g\<close>: a failed read (a deadline, or the socket closed)
  drops the path and ends; a failed write to the host closes the socket and ends, and
  leaves the path where it is.
\<close>

definition reader_read_fails :: "nat \<Rightarrow> relay \<Rightarrow> relay" where
  "reader_read_fails g s =
     (if g \<in> readers s
      then s\<lparr>paths := filter (\<lambda>p. u_guest p \<noteq> g) (paths s), closed := insert g (closed s), readers := readers s - {g}\<rparr>
      else s)"

definition reader_write_fails :: "nat \<Rightarrow> relay \<Rightarrow> relay" where
  "reader_write_fails g s =
     (if g \<in> readers s then s\<lparr>closed := insert g (closed s), readers := readers s - {g}\<rparr> else s)"

inductive relay_step :: "relay \<Rightarrow> relay \<Rightarrow> bool" where
  step_datagram: "relay_step s (fst (relay_datagram src now dial wr s))"
| step_reap: "relay_step s (reap now s)"
| step_read_fails: "relay_step s (reader_read_fails g s)"
| step_write_fails: "relay_step s (reader_write_fails g s)"

inductive relay_reachable :: "relay \<Rightarrow> bool" where
  relay_init: "relay_reachable new_relay"
| relay_next: "relay_reachable s \<Longrightarrow> relay_step s s' \<Longrightarrow> relay_reachable s'"

section \<open>Starting is all or nothing\<close>

definition opened_in :: "effect list \<Rightarrow> nat list" where
  "opened_in tr = List.map_filter (\<lambda>e. case e of Opened k _ _ \<Rightarrow> Some k | _ \<Rightarrow> None) tr"

definition closed_in :: "effect list \<Rightarrow> nat list" where
  "closed_in tr = List.map_filter (\<lambda>e. case e of Closed k \<Rightarrow> Some k | _ \<Rightarrow> None) tr"

lemma trace_simps [simp]:
  "opened_in [] = []" "closed_in [] = []"
  "opened_in (Opened k u a # tr) = k # opened_in tr" "opened_in (Serve k g p # tr) = opened_in tr"
  "closed_in (Opened k u a # tr) = closed_in tr" "closed_in (Serve k g p # tr) = closed_in tr"
  "opened_in (map Closed ks) = []" "closed_in (map Closed ks) = ks"
  by (induction ks) (simp_all add: opened_in_def closed_in_def List.map_filter_def)

lemma ip_string_v4: "length ip = 4 \<Longrightarrow> to4 (parse_ip (ip_string ip)) = Some (ip4_of ip)"
  by (simp add: ip_string_def to4_def [of ip])

lemma rule_guest_ipv4: "rule_guest fallback r = Inr guest \<Longrightarrow> to4 (parse_ip guest) \<noteq> None"
  by (auto simp: rule_guest_def Let_def split: if_splits option.splits ip4.splits)

text \<open>The effects of starting one relay per rule.\<close>

fun serving :: "bytes \<Rightarrow> nat \<Rightarrow> forward_rule list \<Rightarrow> effect list" where
  "serving fallback k [] = []"
| "serving fallback k (r # rs) =
     Opened k (f_udp r) (listen_addr r) #
     Serve k (case rule_guest fallback r of Inr g \<Rightarrow> g | Inl _ \<Rightarrow> '''') (f_guest_port r) #
     serving fallback (Suc k) rs"

lemma upt_from_Suc: "k # [Suc k..<Suc (k + n)] = [k..<Suc (k + n)]"
  by (simp add: upt_rec del: upt_Suc)

lemma start_rules_ok:
  "start_rules listen fallback rs k opened = (tr, Inr ls) \<Longrightarrow>
   ls = opened @ [k..<k + length rs] \<and> tr = serving fallback k rs \<and>
   (\<forall>r \<in> set rs. \<exists>g. rule_guest fallback r = Inr g)"
proof (induction rs arbitrary: k opened tr)
  case (Cons r rs)
  then obtain g tr' where g: "rule_guest fallback r = Inr g"
      "start_rules listen fallback rs (Suc k) (opened @ [k]) = (tr', Inr ls)"
      "tr = Opened k (f_udp r) (listen_addr r) # Serve k g (f_guest_port r) # tr'"
    by (auto simp: Let_def split: sum.splits if_splits prod.splits)
  from Cons.IH [OF g(2)] g show ?case
    by (simp add: upt_from_Suc del: upt_Suc)
qed simp

lemma start_rules_fails:
  "start_rules listen fallback rs k opened = (tr, Inl e) \<Longrightarrow>
   closed_in tr = opened @ opened_in tr \<and> e \<noteq> PortsInvalid e' \<and>
   (\<exists>i < length rs. opened_in tr = [k..<k + i])"
proof (induction rs arbitrary: k opened tr)
  case (Cons r rs)
  show ?case
  proof (cases "\<exists>g. rule_guest fallback r = Inr g \<and> listen k (f_udp r) (listen_addr r)")
    case True
    with Cons.prems obtain g tr' where g: 
        "start_rules listen fallback rs (Suc k) (opened @ [k]) = (tr', Inl e)"
        "tr = Opened k (f_udp r) (listen_addr r) # Serve k g (f_guest_port r) # tr'"
      by (auto simp: Let_def split: prod.splits)
    from Cons.IH [OF g(1)] obtain i where "i < length rs" "opened_in tr' = [Suc k..<Suc k + i]"
        "closed_in tr' = (opened @ [k]) @ opened_in tr'" "e \<noteq> PortsInvalid e'" by blast
    with g(2) show ?thesis by (intro conjI exI [of _ "Suc i"]) (simp_all add: upt_from_Suc del: upt_Suc)
  next
    case False
    with Cons.prems have "tr = abort opened" "e \<noteq> PortsInvalid e'"
      by (auto simp: Let_def rule_guest_def split: sum.splits if_splits option.splits ip4.splits)
    then show ?thesis by (auto simp: abort_def intro!: exI [of _ 0])
  qed
qed simp

text \<open>C26: Starting the port forwards is all or nothing. On success there is exactly one listener and
  one relay per rule, in order, each relay for a guest that is a valid IPv4 address, and
  nothing is closed; on failure every listener opened for the earlier rules is closed again,
  each once.\<close>

theorem start_all_or_nothing:
  "case start listen cfg fallback of
     (tr, Inr ls) \<Rightarrow> (\<exists>rules. parse_ports (cf_ports cfg) = Inr rules \<and> ls = [0..<length rules] \<and>
        tr = serving fallback 0 rules \<and> opened_in tr = ls \<and> closed_in tr = [] \<and>
        (\<forall>r \<in> set rules. \<exists>g a. rule_guest fallback r = Inr g \<and> to4 (parse_ip g) = Some a))
   | (tr, Inl e) \<Rightarrow> closed_in tr = opened_in tr \<and> distinct (opened_in tr)"
proof (cases "start listen cfg fallback")
  case (Pair tr res)
  show ?thesis
  proof (cases res)
    case (Inl e)
    show ?thesis
    proof (cases "parse_ports (cf_ports cfg)")
      case (Inl e')
      with Pair \<open>res = Inl e\<close> show ?thesis by (auto simp: start_def)
    next
      case (Inr rules)
      with Pair \<open>res = Inl e\<close> have "start_rules listen fallback rules 0 [] = (tr, Inl e)"
        by (simp add: start_def)
      from start_rules_fails [OF this] obtain i where "closed_in tr = opened_in tr" "opened_in tr = [0..<i]"
        by auto
      with Pair \<open>res = Inl e\<close> show ?thesis by simp
    qed
  next
    case (Inr ls)
    with Pair obtain rules where p: "parse_ports (cf_ports cfg) = Inr rules"
        "start_rules listen fallback rules 0 [] = (tr, Inr ls)"
      by (auto simp: start_def split: sum.splits)
    have ser: "opened_in (serving fallback k rs) = [k..<k + length rs] \<and> closed_in (serving fallback k rs) = []" for k rs
      by (induction rs arbitrary: k) (simp_all add: upt_from_Suc del: upt_Suc)
    from start_rules_ok [OF p(2)] p(1) ser [of 0 rules] rule_guest_ipv4 Pair Inr show ?thesis
      by fastforce
  qed
qed

lemma start_all_or_nothing_witness:
  "(case start (\<lambda>k u a. k < 1) (defaults\<lparr>cf_ports := [''2222:22'', ''udp .20:53:53'']\<rparr>) [10, 0, 2, 15] of
     (tr, Inr ls) \<Rightarrow> (\<exists>rules. parse_ports (cf_ports (defaults\<lparr>cf_ports := [''2222:22'', ''udp .20:53:53'']\<rparr>)) = Inr rules \<and>
        ls = [0..<length rules] \<and> tr = serving [10, 0, 2, 15] 0 rules \<and> opened_in tr = ls \<and> closed_in tr = [] \<and>
        (\<forall>r \<in> set rules. \<exists>g a. rule_guest [10, 0, 2, 15] r = Inr g \<and> to4 (parse_ip g) = Some a))
   | (tr, Inl e) \<Rightarrow> closed_in tr = opened_in tr \<and> distinct (opened_in tr))"
  by (rule start_all_or_nothing)

text \<open>A last-octet rule is completed against the fallback guest: its guest is the fallback
  address with the last octet replaced, whatever the configured network is.\<close>

theorem last_octet_guest:
  assumes "parse_entry raw = Inr r" and "0 < f_last_octet r" and "to4 fallback = Some (IP4 a b c d)"
  shows "rule_guest fallback r = Inr (ip4_string (IP4 a b c (of_int (f_last_octet r)))) \<and>
     unat (of_int (f_last_octet r) :: byte) = nat (f_last_octet r)"
proof -
  have "rule_ok r" using assms(1) by (rule parse_entry_sound)
  with assms(2) have r: "f_guest_ip r = ''''" "f_last_octet r \<le> 254"
    by (auto simp: rule_ok_def split: if_splits)
  have "to4 (parse_ip (ip4_string x)) = Some x" for x by simp
  moreover have "ip_string (ip4_bytes x) = ip4_string x" for x by (simp add: ip_string_def)
  moreover have "unat (of_int (f_last_octet r) :: byte) = nat (f_last_octet r)"
    using r assms(2) by (cases "f_last_octet r") (simp_all add: unat_of_nat take_bit_nat_eq_self)
  ultimately show ?thesis using r assms
    by (simp add: rule_guest_def Let_def del: ip4_bytes.simps parse_ip_string)
qed

lemma last_octet_guest_witness:
  "rule_guest [10, 9, 8, 15] \<lparr>f_udp = False, f_host_ip = '''', f_host_port = 8080, f_guest_ip = '''',
      f_guest_port = 80, f_last_octet = 20\<rparr> = Inr (ip4_string (IP4 10 9 8 (of_int 20))) \<and>
   unat (of_int 20 :: byte) = nat 20"
proof -
  let ?r = "\<lparr>f_udp = False, f_host_ip = '''', f_host_port = 8080, f_guest_ip = '''', f_guest_port = 80, f_last_octet = 20\<rparr>"
  have "parse_entry (render_rule ?r) = Inr ?r"
    by (rule parse_entry_render) (simp_all add: rule_ok_def canonical_guest_def)
  from last_octet_guest [OF this, of "[10, 9, 8, 15]" 10 9 8 15] show ?thesis
    by (simp add: to4_def ip4_of_def pad_def)
qed

section \<open>The relay's path table\<close>

definition relay_inv :: "relay \<Rightarrow> bool" where
  "relay_inv s \<longleftrightarrow> distinct (map u_src (paths s)) \<and> distinct (map u_guest (paths s)) \<and>
     (\<forall>p \<in> set (paths s). u_guest p < next_guest s) \<and>
     closed s \<subseteq> {..<next_guest s} \<and> readers s \<subseteq> {..<next_guest s}"

lemma touch_fields [simp]:
  "map u_src (paths (touch g t s)) = map u_src (paths s)" "map u_guest (paths (touch g t s)) = map u_guest (paths s)"
  "next_guest (touch g t s) = next_guest s" "closed (touch g t s) = closed s" "readers (touch g t s) = readers s"
  by (auto simp: touch_def)

lemma relay_inv_guests: "relay_inv s \<longleftrightarrow> distinct (map u_src (paths s)) \<and> distinct (map u_guest (paths s)) \<and>
     set (map u_guest (paths s)) \<subseteq> {..<next_guest s} \<and>
     closed s \<subseteq> {..<next_guest s} \<and> readers s \<subseteq> {..<next_guest s}"
  by (auto simp: relay_inv_def)

lemma touch_inv: "relay_inv s \<Longrightarrow> relay_inv (touch g t s)"
  unfolding relay_inv_guests touch_fields .

lemma find_path_None: "find_path src s = None \<longleftrightarrow> src \<notin> u_src ` set (paths s)"
  by (auto simp: find_path_def find_None_iff)

lemma find_path_Some: "find_path src s = Some p \<Longrightarrow> p \<in> set (paths s) \<and> u_src p = src"
  by (auto simp: find_path_def find_Some_iff)

lemma add_path_inv: "relay_inv s \<Longrightarrow> find_path src s = None \<Longrightarrow> relay_inv (add_path src t s)"
  unfolding find_path_None by (fastforce simp: relay_inv_def add_path_def)

lemma locate_path:
  assumes "relay_inv s" "locate src now dial s = Some (s1, g)"
  shows "relay_inv s1" "\<exists>p \<in> set (paths s1). u_guest p = g \<and> u_src p = src \<and> u_last p = now"
proof -
  show "relay_inv s1"
    using assms by (auto simp: locate_def split: option.splits if_splits intro: touch_inv add_path_inv)
  show "\<exists>p \<in> set (paths s1). u_guest p = g \<and> u_src p = src \<and> u_last p = now"
  proof (cases "find_path src s")
    case None
    with assms(2) show ?thesis by (auto simp: locate_def add_path_def split: if_splits)
  next
    case (Some p)
    with assms(2) find_path_Some [OF Some] show ?thesis
      by (auto simp: locate_def touch_def intro!: bexI [of _ "p\<lparr>u_last := now\<rparr>"] image_eqI [of _ _ p])
  qed
qed

lemma guest_bound: "relay_inv s \<Longrightarrow> p \<in> set (paths s) \<Longrightarrow> u_guest p < next_guest s"
  by (simp add: relay_inv_def)

lemma guest_unique: "relay_inv s \<Longrightarrow> p \<in> set (paths s) \<Longrightarrow> q \<in> set (paths s) \<Longrightarrow> u_guest p = u_guest q \<Longrightarrow> p = q"
  unfolding relay_inv_def distinct_map by (blast dest: inj_onD)

lemma relay_datagram_inv:
  assumes "relay_inv s" shows "relay_inv (fst (relay_datagram src now dial wr s))"
proof (cases "locate src now dial s")
  case None
  with assms show ?thesis by (simp add: relay_datagram_def)
next
  case (Some x)
  then obtain s1 g where x: "locate src now dial s = Some (s1, g)" by (cases x) simp
  from locate_path [OF assms x] obtain p where "relay_inv s1" "p \<in> set (paths s1)" "u_guest p = g" by blast
  then have "relay_inv s1" "g < next_guest s1" using guest_bound by auto
  then show ?thesis by (auto simp: relay_datagram_def x relay_inv_def)
qed

lemma relay_step_inv: "relay_step s s' \<Longrightarrow> relay_inv s \<Longrightarrow> relay_inv s'"
proof (induction rule: relay_step.induct)
  case (step_reap s now)
  then show ?case by (auto simp: relay_inv_def reap_def intro: distinct_map_filter)
next
  case (step_read_fails s g)
  then show ?case by (auto simp: relay_inv_def reader_read_fails_def intro: distinct_map_filter)
next
  case (step_write_fails s g)
  then show ?case by (auto simp: relay_inv_def reader_write_fails_def)
qed (rule relay_datagram_inv)

lemma relay_reachable_inv: "relay_reachable s \<Longrightarrow> relay_inv s"
proof (induction rule: relay_reachable.induct)
  case relay_init
  show ?case by (simp add: relay_inv_def new_relay_def)
qed (rule relay_step_inv)

text \<open>C19: In every reachable relay each host sender has at most one path and each guest socket
  belongs to at most one path, and a datagram that is delivered goes to the guest socket of
  its own sender, which is open and which no other sender's path uses.\<close>

theorem relay_paths_exclusive:
  assumes "relay_reachable s"
  shows "distinct (map u_src (paths s)) \<and> distinct (map u_guest (paths s)) \<and>
     (case relay_datagram src now dial wr s of
        (s', Some g) \<Rightarrow> g \<notin> closed s' \<and> (\<exists>p \<in> set (paths s'). u_guest p = g \<and> u_src p = src \<and> u_last p = now \<and>
           (\<forall>q \<in> set (paths s'). u_guest q = g \<longrightarrow> q = p))
      | (s', None) \<Rightarrow> True)"
proof -
  have inv: "relay_inv s" using assms by (rule relay_reachable_inv)
  have "case relay_datagram src now dial wr s of
        (s', Some g) \<Rightarrow> g \<notin> closed s' \<and> (\<exists>p \<in> set (paths s'). u_guest p = g \<and> u_src p = src \<and> u_last p = now \<and>
           (\<forall>q \<in> set (paths s'). u_guest q = g \<longrightarrow> q = p))
      | (s', None) \<Rightarrow> True"
  proof (cases "locate src now dial s")
    case None
    then show ?thesis by (simp add: relay_datagram_def)
  next
    case (Some x)
    then obtain s1 g where x: "locate src now dial s = Some (s1, g)" by (cases x) simp
    from locate_path [OF inv x] obtain p where s1: "relay_inv s1" and
        p: "p \<in> set (paths s1)" "u_guest p = g" "u_src p = src" "u_last p = now" by blast
    have "q = p" if "q \<in> set (paths s1)" "u_guest q = g" for q
      using guest_unique [OF s1 that(1) p(1)] that(2) p(2) by simp
    then have "\<exists>p \<in> set (paths s1). u_guest p = g \<and> u_src p = src \<and> u_last p = now \<and>
        (\<forall>q \<in> set (paths s1). u_guest q = g \<longrightarrow> q = p)" using p by blast
    then show ?thesis by (simp add: relay_datagram_def x)
  qed
  with inv show ?thesis by (simp add: relay_inv_def)
qed

definition peer_a :: "bytes \<times> u16" where
  "peer_a = (v4_prefix @ [192, 0, 2, 1], 4000)"

definition relay1 :: relay where
  "relay1 = fst (relay_datagram peer_a 0 True True new_relay)"

lemma relay1_reachable: "relay_reachable relay1"
  unfolding relay1_def by (rule relay_next [OF relay_init step_datagram])

lemma relay1_simp: "relay1 = \<lparr>paths = [\<lparr>u_guest = 0, u_src = peer_a, u_last = 0\<rparr>], next_guest = 1, closed = {}, readers = {0}\<rparr>"
  by (simp add: relay1_def relay_datagram_def locate_def find_path_def add_path_def new_relay_def)

lemma relay_paths_exclusive_witness:
  "distinct (map u_src (paths relay1)) \<and> distinct (map u_guest (paths relay1)) \<and>
     (case relay_datagram peer_a 5 True True relay1 of
        (s', Some g) \<Rightarrow> g \<notin> closed s' \<and> (\<exists>p \<in> set (paths s'). u_guest p = g \<and> u_src p = peer_a \<and> u_last p = 5 \<and>
           (\<forall>q \<in> set (paths s'). u_guest q = g \<longrightarrow> q = p))
      | (s', None) \<Rightarrow> True)"
  using relay1_reachable by (rule relay_paths_exclusive)

text \<open>A sender's traffic with the reaper's ticks in between.\<close>

fun traffic :: "bytes \<times> u16 \<Rightarrow> (int \<times> int) list \<Rightarrow> relay \<Rightarrow> relay \<times> nat option list" where
  "traffic src [] s = (s, [])"
| "traffic src ((t, tick) # ts) s = (
     let (s, r) = relay_datagram src t True True s;
         (s, rs) = traffic src ts (reap tick s) in (s, r # rs))"

definition dead_path :: "bytes \<times> u16 \<Rightarrow> relay \<Rightarrow> bool" where
  "dead_path src s \<longleftrightarrow> (\<exists>p. find_path src s = Some p \<and> u_guest p \<in> closed s \<and> u_guest p \<notin> readers s)"

lemma find_map_same:
  "(\<And>x. P (f x) = P x) \<Longrightarrow> find P (map f xs) = map_option f (find P xs)"
  by (induction xs) auto

lemma find_filter_keep: "find P xs = Some x \<Longrightarrow> Q x \<Longrightarrow> find P (filter Q xs) = Some x"
  by (induction xs) (auto split: if_splits)

lemma dead_path_step:
  assumes "dead_path src s" "tick - t \<le> udp_idle"
  shows "snd (relay_datagram src t dial wr s) = None \<and> dead_path src (reap tick (fst (relay_datagram src t dial wr s)))"
proof -
  obtain p where p: "find_path src s = Some p" "u_guest p \<in> closed s" "u_guest p \<notin> readers s"
    using assms(1) by (auto simp: dead_path_def)
  let ?s = "touch (u_guest p) t s"
  have r: "relay_datagram src t dial wr s = (?s\<lparr>closed := insert (u_guest p) (closed s)\<rparr>, None)"
    using p by (simp add: relay_datagram_def locate_def)
  have "find (\<lambda>q. u_src q = src) (paths ?s) = Some (p\<lparr>u_last := t\<rparr>)"
    using p(1) unfolding touch_def find_path_def by (simp add: find_map_same)
  then have "find (\<lambda>q. u_src q = src) (filter (\<lambda>q. \<not> tick - u_last q > udp_idle) (paths ?s)) = Some (p\<lparr>u_last := t\<rparr>)"
    using assms(2) by (intro find_filter_keep) simp_all
  with r p show ?thesis by (simp add: dead_path_def reap_def find_path_def)
qed

lemma dead_path_traffic:
  assumes "dead_path src s" "\<And>t tick. (t, tick) \<in> set ts \<Longrightarrow> tick - t \<le> udp_idle"
  shows "snd (traffic src ts s) = replicate (length ts) None"
  using assms
proof (induction ts arbitrary: s)
  case (Cons x ts)
  obtain t tick where x: "x = (t, tick)" by fastforce
  with Cons.prems(2) have "tick - t \<le> udp_idle" by simp
  note step = dead_path_step [OF Cons.prems(1) this, of True True]
  from Cons.IH [OF conjunct2 [OF step]] Cons.prems(2) step show ?case
    by (simp add: x case_prod_beta')
qed simp

text \<open>A path whose reply could not be written to the host is never repaired while its sender
  stays active: the reader closes the guest socket and ends without dropping the path, and
  then every datagram of that sender is lost, for any length of traffic with less than 30 s
  between a datagram and the reaper's next tick, because each lost datagram refreshes the
  path.\<close>

theorem dead_path_blackholes:
  assumes "relay_reachable s" and "p \<in> set (paths s)" and "u_src p = src" and "u_guest p \<in> readers s"
    and "\<And>t tick. (t, tick) \<in> set ts \<Longrightarrow> tick - t \<le> udp_idle"
  shows "snd (traffic src ts (reader_write_fails (u_guest p) s)) = replicate (length ts) None"
proof -
  have inv: "relay_inv s" using assms(1) by (rule relay_reachable_inv)
  have "find_path src s = Some p"
  proof (cases "find_path src s")
    case None
    with assms(2,3) show ?thesis by (auto simp: find_path_None)
  next
    case (Some q)
    from find_path_Some [OF this] assms(2,3) inv have "q = p"
      unfolding relay_inv_def distinct_map by (metis inj_onD)
    with Some show ?thesis by simp
  qed
  then have "dead_path src (reader_write_fails (u_guest p) s)"
    using assms(4) by (simp add: dead_path_def reader_write_fails_def find_path_def)
  then show ?thesis using assms(5) by (rule dead_path_traffic)
qed

lemma dead_path_blackholes_witness:
  "snd (traffic peer_a [(1, 2), (udp_idle, 2 * udp_idle), (3 * udp_idle, 3 * udp_idle + 5)]
     (reader_write_fails 0 relay1)) = replicate 3 None"
proof -
  let ?ts = "[(1, 2), (udp_idle, 2 * udp_idle), (3 * udp_idle, 3 * udp_idle + 5)]"
  have "snd (traffic peer_a ?ts (reader_write_fails (u_guest \<lparr>u_guest = 0, u_src = peer_a, u_last = 0\<rparr>) relay1)) =
      replicate (length ?ts) None"
    using relay1_reachable
    by (rule dead_path_blackholes) (auto simp: relay1_simp udp_idle_def)
  then show ?thesis by (simp add: numeral_3_eq_3)
qed

end
