(* ===== verification/Wire.thy ===== *)
theory Wire
  imports GoStd
begin

text \<open>
  The switch socket: the address grammar and the two framings of
  \<^verbatim>\<open>internal/transport/transport.go\<close>, and the socket file protocol of
  \<^verbatim>\<open>internal/unixseq/unixseq.go\<close>. The kernel's answers to system calls are arguments;
  what the code does with them, which descriptors it closes included, is the model.
\<close>

section \<open>Addresses\<close>

definition is_tcp :: "string \<Rightarrow> bool" where
  "is_tcp addr =
     (if CHR ''/'' \<in> set addr then False
      else (case split_host_port addr of None \<Rightarrow> False | Some (_, port) \<Rightarrow> atoi port \<noteq> None))"

section \<open>TCP framing\<close>

definition frame_max :: nat where
  "frame_max = 9216 + 14 + 4"

datatype send_error = FrameTooLong nat

text \<open>The bytes one \<^verbatim>\<open>SendFrame\<close> writes, in one \<^verbatim>\<open>Write\<close>.\<close>

definition tcp_send :: "frame \<Rightarrow> send_error + bytes" where
  "tcp_send b =
     (if length b > frame_max then Inl (FrameTooLong (length b))
      else Inr (put16 (of_nat (length b)) @ b))"

datatype recv_error = EndOfFile | UnexpectedEof | PeerFrameTooLong nat | RecvErrno string

text \<open>
  \<^verbatim>\<open>io.ReadFull\<close> on a connection whose remaining bytes, up to the peer's close, are
  \<open>stream\<close>; the pieces in which TCP delivers them do not matter to it.
\<close>

definition read_full :: "nat \<Rightarrow> bytes \<Rightarrow> (recv_error + bytes) \<times> bytes" where
  "read_full n stream =
     (if n \<le> length stream then (Inr (take n stream), drop n stream)
      else if stream = [] then (Inl EndOfFile, [])
      else (Inl UnexpectedEof, []))"

definition tcp_recv :: "nat \<Rightarrow> bytes \<Rightarrow> (recv_error + frame) \<times> bytes" where
  "tcp_recv cap stream = (case read_full 2 stream of
       (Inl e, rest) \<Rightarrow> (Inl e, rest)
     | (Inr head, rest) \<Rightarrow>
         let n = (case be16 head of Some w \<Rightarrow> unat w | None \<Rightarrow> 0) in
         if n = 0 then (Inl EndOfFile, rest)
         else if n > frame_max \<or> n > cap then (Inl (PeerFrameTooLong n), rest)
         else read_full n rest)"

section \<open>SEQPACKET framing\<close>

text \<open>
  What successive \<^verbatim>\<open>recvmsg\<close> calls find: an interruption, a message (cut to the
  buffer), the peer's close, which reads as an empty message, or an error. A list that runs
  out is a call that blocks.
\<close>

datatype sys_recv = RecvEintr | RecvMsg frame | RecvErr string

fun seq_recv :: "nat \<Rightarrow> sys_recv list \<Rightarrow> ((recv_error + frame) \<times> sys_recv list) option" where
  "seq_recv cap [] = None"
| "seq_recv cap (RecvEintr # evs) = seq_recv cap evs"
| "seq_recv cap (RecvErr e # evs) = Some (Inl (RecvErrno e), evs)"
| "seq_recv cap (RecvMsg m # evs) =
     (let b = take cap m in Some (if b = [] then Inl EndOfFile else Inr b, evs))"

datatype sys_send = SendEintr | SendOk | SendErr string

text \<open>The number of attempts and the outcome of one \<^verbatim>\<open>SendFrame\<close>.\<close>

fun seq_send :: "sys_send list \<Rightarrow> (string option \<times> sys_send list) option" where
  "seq_send [] = None"
| "seq_send (SendEintr # evs) = seq_send evs"
| "seq_send (SendOk # evs) = Some (None, evs)"
| "seq_send (SendErr e # evs) = Some (Some e, evs)"

section \<open>Joining or binding the socket file\<close>

text \<open>
  System calls in program order; descriptors are numbered by the \<^verbatim>\<open>socket\<close> call that
  made them.
\<close>

datatype act =
    SocketCall nat
  | ConnectCall nat bool
  | CloseCall nat
  | Unlink
  | BindCall nat bool
  | ListenCall nat bool
  | Chmod u32

text \<open>
  The kernel's answers: the \<open>k\<close>-th \<^verbatim>\<open>socket\<close> call, the \<^verbatim>\<open>connect\<close> on
  descriptor \<open>k\<close>, whether the path is a socket file when it is looked at, bind, listen, and
  the identity of the file after binding.
\<close>

record kernel =
  socket_ok :: "nat \<Rightarrow> bool"
  connect_ok :: "nat \<Rightarrow> bool"
  path_is_socket :: bool
  bind_ok :: bool
  listen_ok :: bool
  bound_id :: "(u64 \<times> u64) option"

record listener =
  ln_fd :: nat
  ln_path :: string
  ln_ino :: u64
  ln_dev :: u64

datatype join_error = SocketFailed | ConnectFailed | BindRefused string | ListenRefused string

datatype joined = Hub listener | Peer nat

definition unix_try_connect :: "kernel \<Rightarrow> act list \<times> (join_error + nat)" where
  "unix_try_connect K =
     (if \<not> socket_ok K 0 then ([], Inl SocketFailed)
      else if connect_ok K 0 then ([SocketCall 0, ConnectCall 0 True], Inr 0)
      else ([SocketCall 0, ConnectCall 0 False, CloseCall 0], Inl ConnectFailed))"

text \<open>The part after both connects failed and a stale file was removed; 384 is \<^verbatim>\<open>0o600\<close>.\<close>

definition bind_listen :: "kernel \<Rightarrow> string \<Rightarrow> u32 \<Rightarrow> act list \<times> (join_error + joined)" where
  "bind_listen K path mode =
     (if \<not> socket_ok K 2 then ([], Inl SocketFailed)
      else if \<not> bind_ok K then
        (if \<not> socket_ok K 3 then ([SocketCall 2, BindCall 2 False, CloseCall 2], Inl SocketFailed)
         else if connect_ok K 3 then
           ([SocketCall 2, BindCall 2 False, CloseCall 2, SocketCall 3, ConnectCall 3 True], Inr (Peer 3))
         else
           ([SocketCall 2, BindCall 2 False, CloseCall 2, SocketCall 3, ConnectCall 3 False, CloseCall 3],
            Inl (BindRefused path)))
      else if \<not> listen_ok K then
        ([SocketCall 2, BindCall 2 True, ListenCall 2 False, CloseCall 2, Unlink], Inl (ListenRefused path))
      else
        ([SocketCall 2, BindCall 2 True, ListenCall 2 True, Chmod (if mode = 0 then 384 else mode)],
         Inr (Hub (case bound_id K of
            Some (ino, dev) \<Rightarrow> \<lparr>ln_fd = 2, ln_path = path, ln_ino = ino, ln_dev = dev\<rparr>
          | None \<Rightarrow> \<lparr>ln_fd = 2, ln_path = path, ln_ino = 0, ln_dev = 0\<rparr>))))"

definition unix_bind_or_connect :: "kernel \<Rightarrow> string \<Rightarrow> u32 \<Rightarrow> act list \<times> (join_error + joined)" where
  "unix_bind_or_connect K path mode =
     (if \<not> socket_ok K 0 then ([], Inl SocketFailed)
      else if connect_ok K 0 then ([SocketCall 0, ConnectCall 0 True], Inr (Peer 0))
      else
        let first = [SocketCall 0, ConnectCall 0 False, CloseCall 0] in
        if \<not> socket_ok K 1 then (first, Inl SocketFailed)
        else if connect_ok K 1 then (first @ [SocketCall 1, ConnectCall 1 True], Inr (Peer 1))
        else
          let second = first @ [SocketCall 1, ConnectCall 1 False, CloseCall 1];
              stale = (if path_is_socket K then [Unlink] else []);
              (tr, res) = bind_listen K path mode in
          (second @ stale @ tr, res))"

text \<open>
  \<^verbatim>\<open>Listener.Close\<close>: whether the socket file is removed, given what the path names now.
\<close>

definition listener_close :: "listener \<Rightarrow> (u64 \<times> u64) option \<Rightarrow> bool" where
  "listener_close l path_id =
     (if ln_ino l = 0 then False
      else (case path_id of None \<Rightarrow> False | Some (ino, dev) \<Rightarrow> ino = ln_ino l \<and> dev = ln_dev l))"

text \<open>
  The TCP variant of \<^verbatim>\<open>BindOrConnect\<close>: the first is whether a dial succeeds, the second
  whether a listen does.
\<close>

datatype tcp_joined = TcpHub | TcpPeer

definition tcp_bind_or_connect :: "bool \<Rightarrow> bool \<Rightarrow> join_error + tcp_joined" where
  "tcp_bind_or_connect dial listens =
     (if dial then Inr TcpPeer else if listens then Inr TcpHub else Inl (ListenRefused ''tcp''))"

text \<open>
  \<^verbatim>\<open>TryConnect\<close> and \<^verbatim>\<open>BindOrConnect\<close> over both kinds of address: \<open>dial\<close> and
  \<open>listens\<close> are the answers for a TCP address, which no call on a socket file belongs to.
\<close>

datatype wire = TcpWire | UnixWire nat

datatype endpoint_kind = TcpListener | UnixListener listener | JoinedWire wire

definition try_connect :: "kernel \<Rightarrow> bool \<Rightarrow> string \<Rightarrow> act list \<times> (join_error + wire)" where
  "try_connect K dial addr =
     (if is_tcp addr then ([], if dial then Inr TcpWire else Inl ConnectFailed)
      else (case unix_try_connect K of
          (tr, Inl e) \<Rightarrow> (tr, Inl e)
        | (tr, Inr fd) \<Rightarrow> (tr, Inr (UnixWire fd))))"

definition bind_or_connect :: "kernel \<Rightarrow> bool \<Rightarrow> bool \<Rightarrow> string \<Rightarrow> u32 \<Rightarrow> act list \<times> (join_error + endpoint_kind)" where
  "bind_or_connect K dial listens addr mode =
     (if is_tcp addr then
        ([], case tcp_bind_or_connect dial listens of
           Inl e \<Rightarrow> Inl e
         | Inr TcpPeer \<Rightarrow> Inr (JoinedWire TcpWire)
         | Inr TcpHub \<Rightarrow> Inr TcpListener)
      else (case unix_bind_or_connect K addr mode of
          (tr, Inl e) \<Rightarrow> (tr, Inl e)
        | (tr, Inr (Peer fd)) \<Rightarrow> (tr, Inr (JoinedWire (UnixWire fd)))
        | (tr, Inr (Hub l)) \<Rightarrow> (tr, Inr (UnixListener l))))"

section \<open>Reading until the pipe breaks\<close>

text \<open>
  The loop every reader of frames runs, with the receive as an argument: the frames handed
  out and the error that ends it. The fuel bounds the number of receives.
\<close>

fun read_loop :: "(nat \<Rightarrow> 'w \<Rightarrow> ((recv_error + frame) \<times> 'w) option) \<Rightarrow> nat \<Rightarrow> nat \<Rightarrow> 'w
    \<Rightarrow> (frame list \<times> recv_error) option" where
  "read_loop recv cap 0 w = None"
| "read_loop recv cap (Suc n) w = (case recv cap w of
      None \<Rightarrow> None
    | Some (Inl e, _) \<Rightarrow> Some ([], e)
    | Some (Inr f, w) \<Rightarrow> map_option (\<lambda>(fs, e). (f # fs, e)) (read_loop recv cap n w))"

section \<open>Framing as an interface\<close>

text \<open>
  What a reader of frames relies on: a wire that carries the frames \<open>fs\<close>, in order, hands
  them out one per receive and then reports the peer's close.
\<close>

locale framing =
  fixes wire_of :: "frame list \<Rightarrow> 'w"
    and recv :: "nat \<Rightarrow> 'w \<Rightarrow> ((recv_error + frame) \<times> 'w) option"
  assumes recv_next: "frame \<noteq> [] \<Longrightarrow> length frame \<le> frame_max \<Longrightarrow> frame_max \<le> cap \<Longrightarrow>
      recv cap (wire_of (frame # fs)) = Some (Inr frame, wire_of fs)"
    and recv_closed: "\<exists>w. recv cap (wire_of []) = Some (Inl EndOfFile, w)"
begin

lemma read_loop_all:
  assumes "\<And>f. f \<in> set fs \<Longrightarrow> f \<noteq> [] \<and> length f \<le> frame_max" "frame_max \<le> cap" "length fs < n"
  shows "read_loop recv cap n (wire_of fs) = Some (fs, EndOfFile)"
  using assms(1,3)
proof (induction fs arbitrary: n)
  case Nil
  then obtain m where "n = Suc m" by (cases n) simp_all
  with recv_closed [of cap] show ?case by auto
next
  case (Cons f fs)
  then obtain m where m: "n = Suc m" "length fs < m" by (cases n) simp_all
  from Cons.prems(1) assms(2) have "recv cap (wire_of (f # fs)) = Some (Inr f, wire_of fs)"
    by (intro recv_next) simp_all
  with Cons.IH [OF _ m(2)] Cons.prems(1) m(1) show ?case by simp
qed

end

section \<open>Both transports provide it\<close>

definition tcp_wire :: "frame list \<Rightarrow> bytes" where
  "tcp_wire fs = concat (map (\<lambda>f. put16 (of_nat (length f)) @ f) fs)"

lemma frame_max_16: "n \<le> frame_max \<Longrightarrow> n < 2 ^ 16"
  by (simp add: frame_max_def)

lemma tcp_send_wire: "length f \<le> frame_max \<Longrightarrow> tcp_send f = Inr (tcp_wire [f])"
  by (simp add: tcp_send_def tcp_wire_def)

lemma tcp_recv_next:
  assumes "f \<noteq> []" "length f \<le> frame_max" "length f \<le> cap"
  shows "tcp_recv cap (tcp_wire (f # fs)) = (Inr f, tcp_wire fs)"
proof -
  have w: "tcp_wire (f # fs) = put16 (of_nat (length f)) @ f @ tcp_wire fs"
    by (simp add: tcp_wire_def)
  have "read_full 2 (tcp_wire (f # fs)) = (Inr (put16 (of_nat (length f))), f @ tcp_wire fs)"
    unfolding w by (simp add: read_full_def)
  moreover have "unat (of_nat (length f) :: u16) = length f"
    using assms(2) by (intro unat_of_nat16 frame_max_16)
  ultimately show ?thesis using assms
    by (simp add: tcp_recv_def read_full_def)
qed

interpretation tcp: framing tcp_wire "\<lambda>cap w. Some (tcp_recv cap w)"
proof unfold_locales
  show "Some (tcp_recv cap (tcp_wire (frame # fs))) = Some (Inr frame, tcp_wire fs)"
    if "frame \<noteq> []" "length frame \<le> frame_max" "frame_max \<le> cap" for cap frame fs
    using that by (simp add: tcp_recv_next)
  show "\<exists>w. Some (tcp_recv cap (tcp_wire [])) = Some (Inl EndOfFile, w)" for cap
    by (simp add: tcp_recv_def read_full_def tcp_wire_def)
qed

definition seq_wire :: "frame list \<Rightarrow> sys_recv list" where
  "seq_wire fs = map RecvMsg fs @ [RecvMsg []]"

interpretation seqpacket: framing seq_wire seq_recv
  by unfold_locales (auto simp: seq_wire_def frame_max_def)

section \<open>A TCP peer that sends anything\<close>

lemma tcp_recv_Inr:
  assumes "tcp_recv cap stream = (Inr f, rest)"
  shows "stream = tcp_wire [f] @ rest" "f \<noteq> []" "length f \<le> frame_max" "length f \<le> cap"
proof -
  from assms obtain head mid where h: "read_full 2 stream = (Inr head, mid)"
    by (auto simp: tcp_recv_def split: sum.splits prod.splits)
  then have len: "2 \<le> length stream" and hm: "head = take 2 stream" "mid = drop 2 stream"
    by (auto simp: read_full_def split: if_splits)
  obtain a b where ab: "head = [a, b]"
    using len hm(1) by (cases stream; cases "tl stream") auto
  obtain w where w: "be16 head = Some w" using ab by simp
  then have "put16 w = head" unfolding ab by (rule put16_be16)
  have n: "unat w \<noteq> 0" "unat w \<le> frame_max" "unat w \<le> cap" "read_full (unat w) mid = (Inr f, rest)"
    using assms h w by (auto simp: tcp_recv_def Let_def split: if_splits)
  then have f: "f = take (unat w) mid" "rest = drop (unat w) mid" "unat w \<le> length mid"
    by (auto simp: read_full_def split: if_splits)
  then have lf: "length f = unat w" by simp
  with n show "f \<noteq> []" "length f \<le> frame_max" "length f \<le> cap" by auto
  have "stream = head @ mid" using hm by simp
  also have "\<dots> = put16 (of_nat (length f)) @ f @ rest" using f lf \<open>put16 w = head\<close> by simp
  finally show "stream = tcp_wire [f] @ rest" by (simp add: tcp_wire_def)
qed

lemma tcp_wire_Cons: "tcp_wire (f # fs) = tcp_wire [f] @ tcp_wire fs"
  by (simp add: tcp_wire_def)

lemma length_tcp_wire1: "length (tcp_wire [f]) = 2 + length f"
  by (simp add: tcp_wire_def)

lemma tcp_read_loop_exact:
  assumes "length stream < n"
  shows "\<exists>fs e rest. read_loop (\<lambda>cap w. Some (tcp_recv cap w)) cap n stream = Some (fs, e) \<and>
     stream = tcp_wire fs @ rest \<and> (\<forall>f \<in> set fs. f \<noteq> [] \<and> length f \<le> frame_max \<and> length f \<le> cap)"
  using assms
proof (induction n arbitrary: stream)
  case (Suc n)
  show ?case
  proof (cases "tcp_recv cap stream")
    case (Pair r rest)
    show ?thesis
    proof (cases r)
      case (Inl e)
      with Pair show ?thesis by (auto simp: tcp_wire_def intro!: exI [of _ stream])
    next
      case (Inr f)
      note t = tcp_recv_Inr [OF Pair [unfolded Inr]]
      from t(1) Suc.prems have "length rest < n" by (simp add: length_tcp_wire1)
      from Suc.IH [OF this] obtain fs e rest' where
        "read_loop (\<lambda>cap w. Some (tcp_recv cap w)) cap n rest = Some (fs, e)" "rest = tcp_wire fs @ rest'"
        "\<forall>f \<in> set fs. f \<noteq> [] \<and> length f \<le> frame_max \<and> length f \<le> cap" by blast
      with t(2-4) have "read_loop (\<lambda>cap w. Some (tcp_recv cap w)) cap (Suc n) stream = Some (f # fs, e)"
          "\<forall>f \<in> set (f # fs). f \<noteq> [] \<and> length f \<le> frame_max \<and> length f \<le> cap"
        using Pair Inr by simp_all
      moreover have "stream = tcp_wire (f # fs) @ rest'"
        unfolding t(1) \<open>rest = tcp_wire fs @ rest'\<close> tcp_wire_Cons [of f fs] by simp
      ultimately show ?thesis by blast
    qed
  qed
qed simp

section \<open>Properties\<close>

text \<open>C16: Frames sent over TCP arrive exactly as sent: when a peer sends any frames of 1 to 9234
  bytes and closes, reading with a full-size buffer hands out these frames, in order, and then
  reports the end of the stream; longer frames are refused by the sender.\<close>

theorem tcp_roundtrip:
  assumes "\<And>f. f \<in> set fs \<Longrightarrow> f \<noteq> [] \<and> length f \<le> frame_max" and "frame_max \<le> cap"
    and "map tcp_send fs = map Inr pieces"
  shows "read_loop (\<lambda>cap w. Some (tcp_recv cap w)) cap (Suc (length fs)) (concat pieces) = Some (fs, EndOfFile)"
proof -
  have "map tcp_send fs = map (\<lambda>f. Inr (tcp_wire [f])) fs"
    using assms(1) by (simp add: tcp_send_wire)
  then have "map Inr pieces = (map Inr (map (\<lambda>f. tcp_wire [f]) fs) :: (send_error + bytes) list)"
    using assms(3) by (simp add: o_def)
  then have "pieces = map (\<lambda>f. tcp_wire [f]) fs"
    by (subst (asm) inj_map_eq_map) (simp_all add: inj_def)
  then have "concat pieces = tcp_wire fs" by (simp add: tcp_wire_def o_def)
  then show ?thesis using tcp.read_loop_all [OF assms(1,2), of fs "Suc (length fs)"] by (simp only: lessI)
qed

lemma tcp_roundtrip_witness:
  "read_loop (\<lambda>cap w. Some (tcp_recv cap w)) 9234 (Suc (length [[1, 2, 3], [4 :: byte]]))
     (concat [[0, 3, 1, 2, 3], [0, 1, 4]]) = Some ([[1, 2, 3], [4]], EndOfFile)"
  by (rule tcp_roundtrip) (auto simp: frame_max_def tcp_send_def put16_def)

text \<open>C27: A reader of a TCP peer survives any byte stream: after at most one receive per byte it
  stops with an error, every frame it handed out is nonempty and fits both the protocol limit
  and the buffer, and these frames are exactly the framing of a prefix of the stream.\<close>

theorem tcp_any_stream:
  "\<exists>fs e rest. read_loop (\<lambda>cap w. Some (tcp_recv cap w)) cap (Suc (length stream)) stream = Some (fs, e) \<and>
     stream = tcp_wire fs @ rest \<and> (\<forall>f \<in> set fs. f \<noteq> [] \<and> length f \<le> frame_max \<and> length f \<le> cap)"
  by (rule tcp_read_loop_exact) simp

lemma tcp_any_stream_witness:
  "\<exists>fs e rest. read_loop (\<lambda>cap w. Some (tcp_recv cap w)) 64 (Suc (length [0, 1, 7, 255, 255 :: byte])) [0, 1, 7, 255, 255] = Some (fs, e) \<and>
     [0, 1, 7, 255, 255] = tcp_wire fs @ rest \<and> (\<forall>f \<in> set fs. f \<noteq> [] \<and> length f \<le> frame_max \<and> length f \<le> 64)"
  by (rule tcp_any_stream)

text \<open>Descriptors opened and not closed again, and whether a file was removed before binding.\<close>

definition left_open :: "act list \<Rightarrow> nat set" where
  "left_open tr = {k. SocketCall k \<in> set tr} - {k. CloseCall k \<in> set tr}"

definition unlinks_before_bind :: "act list \<Rightarrow> bool" where
  "unlinks_before_bind tr \<longleftrightarrow> Unlink \<in> set (takeWhile (\<lambda>a. \<forall>k b. a \<noteq> BindCall k b) tr)"

lemma left_open_append:
  "left_open (xs @ ys) = ({k. SocketCall k \<in> set xs} \<union> {k. SocketCall k \<in> set ys}) -
     ({k. CloseCall k \<in> set xs} \<union> {k. CloseCall k \<in> set ys})"
  by (auto simp: left_open_def)

text \<open>C28: Joining or binding the switch socket is safe for every answer of the kernel: the only
  descriptor left open is the one returned, and none on an error; a file is removed before
  binding only when two connects to it failed and it is a socket; the instance becomes a peer
  only over a connection that succeeded, and the hub only after bind and listen succeeded.\<close>

theorem bind_or_connect_safe:
  "case unix_bind_or_connect K path mode of (tr, res) \<Rightarrow>
     left_open tr = (case res of Inr (Hub l) \<Rightarrow> {ln_fd l} | Inr (Peer k) \<Rightarrow> {k} | Inl _ \<Rightarrow> {}) \<and>
     (unlinks_before_bind tr \<longrightarrow> path_is_socket K \<and> \<not> connect_ok K 0 \<and> \<not> connect_ok K 1) \<and>
     (case res of
        Inr (Hub l) \<Rightarrow> \<not> connect_ok K 0 \<and> \<not> connect_ok K 1 \<and> bind_ok K \<and> listen_ok K \<and> ln_path l = path
      | Inr (Peer k) \<Rightarrow> connect_ok K k
      | Inl _ \<Rightarrow> True)"
  by (auto simp: unix_bind_or_connect_def bind_listen_def left_open_def unlinks_before_bind_def Let_def
      split: option.splits)

definition fresh_kernel :: kernel where
  "fresh_kernel = \<lparr>socket_ok = \<lambda>_. True, connect_ok = \<lambda>_. False, path_is_socket = True, bind_ok = True,
     listen_ok = True, bound_id = Some (11, 22)\<rparr>"

lemma bind_or_connect_safe_witness:
  "case unix_bind_or_connect fresh_kernel ''/tmp/vde.socket'' 0 of (tr, res) \<Rightarrow>
     left_open tr = (case res of Inr (Hub l) \<Rightarrow> {ln_fd l} | Inr (Peer k) \<Rightarrow> {k} | Inl _ \<Rightarrow> {}) \<and>
     (unlinks_before_bind tr \<longrightarrow> path_is_socket fresh_kernel \<and> \<not> connect_ok fresh_kernel 0 \<and> \<not> connect_ok fresh_kernel 1) \<and>
     (case res of
        Inr (Hub l) \<Rightarrow> \<not> connect_ok fresh_kernel 0 \<and> \<not> connect_ok fresh_kernel 1 \<and> bind_ok fresh_kernel \<and>
          listen_ok fresh_kernel \<and> ln_path l = ''/tmp/vde.socket''
      | Inr (Peer k) \<Rightarrow> connect_ok fresh_kernel k
      | Inl _ \<Rightarrow> True)"
  by (rule bind_or_connect_safe)

text \<open>Over either kind of address, what stays open is what is returned, and a TCP address touches no socket file.\<close>

lemma bind_or_connect_open:
  assumes "bind_or_connect K dial listens addr mode = (tr, res)"
  shows "left_open tr = (case res of
      Inr (UnixListener l) \<Rightarrow> {ln_fd l} | Inr (JoinedWire (UnixWire fd)) \<Rightarrow> {fd} | _ \<Rightarrow> {})"
    and "is_tcp addr \<Longrightarrow> tr = []"
  using assms
  by (auto simp: bind_or_connect_def tcp_bind_or_connect_def unix_bind_or_connect_def bind_listen_def left_open_def Let_def
      split: option.splits if_splits)

lemma try_connect_open:
  assumes "try_connect K dial addr = (tr, res)"
  shows "left_open tr = (case res of Inr (UnixWire fd) \<Rightarrow> {fd} | _ \<Rightarrow> {})"
  using assms by (auto simp: try_connect_def unix_try_connect_def left_open_def split: if_splits)

end
