(* ===== verification/Icmp.thy ===== *)
theory Icmp
  imports Headers
begin

text \<open>
  The ICMP echo relay of \<^verbatim>\<open>internal/nat/icmp.go\<close>: the flow table, the request it
  re-emits on the host socket, the reply frame it builds, and the checksum. The host socket's
  answers are arguments; packets sent on it are returned.
\<close>

section \<open>State\<close>

record icmp_flow =
  fl_guest_mac :: mac
  fl_guest_ip :: ip4
  fl_dst :: ip4
  fl_id :: u16
  fl_seq :: u16
  fl_deadline :: int
  fl_src_mac :: bytes

record icmp_relay =
  ir_src_mac :: bytes
  ir_fd :: int
  ir_host_id :: u16
  ir_flows :: "u16 \<Rightarrow> icmp_flow option"
  ir_seq :: u16

definition icmp_flow_ttl :: int where
  "icmp_flow_ttl = 30 * 1000000000"

section \<open>The host socket\<close>

datatype echo_error = EchoSocket | EchoBind | EchoName | EchoNoId

text \<open>
  \<^verbatim>\<open>getsockname\<close> fails or returns an address that is IPv4 or not, with a port. The
  first result lists the descriptors closed again.
\<close>

definition open_echo_socket :: "int option \<Rightarrow> bool \<Rightarrow> (bool \<times> u16) option \<Rightarrow> int list \<times> (echo_error + (int \<times> u16))" where
  "open_echo_socket sock bound name = (case sock of
       None \<Rightarrow> ([], Inl EchoSocket)
     | Some fd \<Rightarrow>
         if \<not> bound then ([fd], Inl EchoBind)
         else (case name of
             None \<Rightarrow> ([fd], Inl EchoName)
           | Some (inet4, port) \<Rightarrow>
               if \<not> inet4 \<or> port = 0 then ([fd], Inl EchoNoId) else ([], Inr (fd, port))))"

definition new_icmp_relay :: "bytes \<Rightarrow> echo_error + (int \<times> u16) \<Rightarrow> icmp_relay" where
  "new_icmp_relay src opened =
     (let r = \<lparr>ir_src_mac = src, ir_fd = -1, ir_host_id = 0, ir_flows = Map.empty, ir_seq = 0\<rparr> in
      case opened of Inl e \<Rightarrow> r | Inr (fd, n) \<Rightarrow> r\<lparr>ir_fd := fd, ir_host_id := n\<rparr>)"

section \<open>The checksum\<close>

fun be_sum :: "bytes \<Rightarrow> u32 \<Rightarrow> u32" where
  "be_sum (a # b # xs) s = be_sum xs (s + ucast (push_bit 8 (ucast a) OR ucast b :: u16))"
| "be_sum [a] s = s + push_bit 8 (ucast a)"
| "be_sum [] s = s"

lemma fold32_decreases:
  fixes s :: u32
  assumes "drop_bit 16 s \<noteq> 0"
  shows "unat (drop_bit 16 s + (s AND 0xffff)) = unat s div 65536 + unat s mod 65536"
    and "unat s div 65536 + unat s mod 65536 < unat s"
proof -
  have hi: "unat (drop_bit 16 s) = unat s div 65536"
    unfolding unat_drop_bit_eq drop_bit_eq_div by (simp add: unat_div)
  have "s AND 0xffff = take_bit 16 s"
    by (simp add: take_bit_eq_mask mask_eq_exp_minus_1)
  then have lo: "unat (s AND 0xffff) = unat s mod 65536"
    by (simp add: unat_mod take_bit_eq_mod)
  have "unat s < 2 ^ 32" using unsigned_less [of s] by simp
  then have "unat s div 65536 + unat s mod 65536 < 2 ^ 32" by linarith
  then show "unat (drop_bit 16 s + (s AND 0xffff)) = unat s div 65536 + unat s mod 65536"
    by (simp add: unat_word_ariths hi lo)
  have "unat s div 65536 \<noteq> 0" using assms hi by (metis unat_eq_0)
  with div_mult_mod_eq [of "unat s" 65536]
  show "unat s div 65536 + unat s mod 65536 < unat s" by linarith
qed

text \<open>The folding loop ends because each round is smaller.\<close>

function fold32 :: "u32 \<Rightarrow> u32" where
  "fold32 s = (if drop_bit 16 s = 0 then s else fold32 (drop_bit 16 s + (s AND 0xffff)))"
  by pat_completeness auto
termination fold32
proof (relation "measure unat")
  show "(drop_bit 16 s + (s AND 0xffff), s) \<in> measure unat" if "drop_bit 16 s \<noteq> 0" for s :: u32
    using fold32_decreases [OF that] by (simp only: in_measure)
qed simp

declare fold32.simps [simp del]

definition icmp_checksum :: "bytes \<Rightarrow> u16" where
  "icmp_checksum b = NOT (ucast (fold32 (be_sum b 0)))"

section \<open>Requests\<close>

text \<open>The frame length is trusted when the IP total length is off.\<close>

definition trusted_total :: "nat \<Rightarrow> nat \<Rightarrow> nat \<Rightarrow> nat" where
  "trusted_total tot ihl len =
     (if tot < ihl + icmpv4_min \<or> ethernet_min + tot > len then len - ethernet_min else tot)"

text \<open>Destination, identifier, sequence number and payload; the outer \<open>None\<close> is a panic.\<close>

type_synonym echo = "ip4 \<times> u16 \<times> u16 \<times> bytes"

definition parse_echo_request :: "hdr_ops \<Rightarrow> frame \<Rightarrow> echo option option" where
  "parse_echo_request G frame =
     (if length frame < ethernet_min + ipv4_min + icmpv4_min then Some None
      else do {
        t \<leftarrow> u16_at frame 12;
        if t \<noteq> 0x0800 then Some None
        else do {
          ip \<leftarrow> subslice_from frame ethernet_min;
          if ip_protocol G ip \<noteq> proto_icmp then Some None
          else let ihl = unat (ip_header_length G ip) in
            if length frame < ethernet_min + ihl + icmpv4_min then Some None
            else do {
              icmp \<leftarrow> subslice_from frame (ethernet_min + ihl);
              kind \<leftarrow> idx icmp 0;
              if kind \<noteq> icmp_echo then Some None
              else do {
                let tot = trusted_total (unat (ip_total_length G ip)) ihl (length frame);
                let dst = ip4_of (ip_dst_addr G ip);
                eid \<leftarrow> u16_at icmp 4;
                seq \<leftarrow> u16_at icmp 6;
                payload \<leftarrow> (if tot < ihl then None else subslice icmp icmpv4_min (tot - ihl));
                Some (Some (dst, eid, seq, payload)) } } } })"

text \<open>The packet re-emitted on the host socket.\<close>

definition echo_request :: "u16 \<Rightarrow> u16 \<Rightarrow> bytes \<Rightarrow> bytes option" where
  "echo_request host_id seq payload = do {
     let pkt = replicate (icmpv4_min + length payload) 0;
     pkt \<leftarrow> store pkt 0 icmp_echo;
     pkt \<leftarrow> copy_into pkt 4 6 (put16 host_id);
     pkt \<leftarrow> copy_into pkt 6 8 (put16 seq);
     pkt \<leftarrow> copy_into pkt icmpv4_min (length pkt) payload;
     copy_into pkt 2 4 (put16 (icmp_checksum pkt)) }"

definition sweep :: "int \<Rightarrow> (u16 \<Rightarrow> icmp_flow option) \<Rightarrow> u16 \<Rightarrow> icmp_flow option" where
  "sweep now flows seq = (case flows seq of
       None \<Rightarrow> None | Some f \<Rightarrow> if now > fl_deadline f then None else Some f)"

text \<open>
  The result is the relay, the packet sent with its destination, and whether the frame was
  consumed. \<open>now\<close> is the clock at the deadline computation and \<open>now'\<close> at the sweep;
  \<open>send_ok\<close> is the host socket's answer.
\<close>

definition icmp_handle_frame :: "hdr_ops \<Rightarrow> int \<Rightarrow> int \<Rightarrow> bool \<Rightarrow> (ip4 \<Rightarrow> bool) \<Rightarrow> frame \<Rightarrow> icmp_relay
    \<Rightarrow> (icmp_relay \<times> (bytes \<times> ip4) option \<times> bool) option" where
  "icmp_handle_frame G now now' send_ok own frame r =
     (if ir_fd r < 0 then Some (r, None, False)
      else do {
        parsed \<leftarrow> parse_echo_request G frame;
        case parsed of
          None \<Rightarrow> Some (r, None, False)
        | Some (dst, eid, seq, payload) \<Rightarrow>
            if own dst then Some (r, None, False)
            else do {
              a \<leftarrow> idx frame 26; b \<leftarrow> idx frame 27; c \<leftarrow> idx frame 28; d \<leftarrow> idx frame 29;
              m \<leftarrow> subslice frame 6 12;
              let flow = \<lparr>fl_guest_mac = mac_of m, fl_guest_ip = IP4 a b c d, fl_dst = dst, fl_id = eid,
                 fl_seq = seq, fl_deadline = now + icmp_flow_ttl, fl_src_mac = ir_src_mac r\<rparr>;
              let ourSeq = ir_seq r + 1;
              let flows = (sweep now' (ir_flows r))(ourSeq \<mapsto> flow);
              pkt \<leftarrow> echo_request (ir_host_id r) ourSeq payload;
              if send_ok then Some (r\<lparr>ir_seq := ourSeq, ir_flows := flows\<rparr>, Some (pkt, dst), True)
              else Some (r\<lparr>ir_seq := ourSeq, ir_flows := flows(ourSeq := None)\<rparr>, Some (pkt, dst), False) } })"

section \<open>Replies\<close>

definition build_echo_reply :: "hdr_ops \<Rightarrow> icmp_flow \<Rightarrow> ip4 \<Rightarrow> bytes \<Rightarrow> frame option" where
  "build_echo_reply G flow src payload = do {
     let icmpLen = icmpv4_min + length payload;
     let ipLen = ipv4_min + icmpLen;
     let icmp = replicate icmpLen 0;
     icmp \<leftarrow> store icmp 0 icmp_echo_reply;
     icmp \<leftarrow> copy_into icmp 4 6 (put16 (fl_id flow));
     icmp \<leftarrow> copy_into icmp 6 8 (put16 (fl_seq flow));
     icmp \<leftarrow> copy_into icmp icmpv4_min (length icmp) payload;
     icmp \<leftarrow> copy_into icmp 2 4 (put16 (icmp_checksum icmp));
     let ip = replicate ipv4_min 0 @ icmp;
     let ip = ip_encode G \<lparr>if_total = of_nat ipLen, if_ttl = 64, if_proto = proto_icmp, if_src = src,
       if_dst = fl_guest_ip flow\<rparr> ip;
     let ip = ip_set_checksum G (NOT (ip_calc_checksum G ip)) ip;
     let frame = replicate ethernet_min 0 @ ip;
     Some (eth_encode G \<lparr>ef_src = fl_src_mac flow, ef_dst = mac_bytes (fl_guest_mac flow), ef_type = 0x0800\<rparr> frame) }"

text \<open>The result is the relay and the frame delivered to the switch, if any.\<close>

definition handle_reply :: "hdr_ops \<Rightarrow> bytes \<Rightarrow> ip4 \<Rightarrow> icmp_relay \<Rightarrow> (icmp_relay \<times> frame option) option" where
  "handle_reply G pkt src r =
     (if length pkt < icmpv4_min then Some (r, None)
      else do {
        kind \<leftarrow> idx pkt 0;
        if kind \<noteq> icmp_echo_reply then Some (r, None)
        else do {
          seq \<leftarrow> u16_at pkt 6;
          case ir_flows r seq of
            None \<Rightarrow> Some (r, None)
          | Some flow \<Rightarrow> do {
              payload \<leftarrow> subslice_from pkt icmpv4_min;
              frame \<leftarrow> build_echo_reply G flow src payload;
              Some (r\<lparr>ir_flows := (ir_flows r)(seq := None)\<rparr>, Some frame) } } })"

section \<open>The checksum is the one's complement sum\<close>

lemma fold32_value: "unat (fold32 s) = ones_sum (unat s)"
proof (induction s rule: fold32.induct)
  case (1 s)
  show ?case
  proof (cases "drop_bit 16 s = 0")
    case True
    have "unat (drop_bit 16 s) = unat s div 65536"
      unfolding unat_drop_bit_eq drop_bit_eq_div by (simp add: unat_div)
    with True have "unat s < 65536" by simp
    with True show ?thesis by (simp add: fold32.simps [of s] ones_sum_id)
  next
    case False
    note d = fold32_decreases [OF False]
    have "(unat s div 65536 + unat s mod 65536) mod 65535 = unat s mod 65535"
    proof -
      have "unat s = (unat s div 65536 + unat s mod 65536) + 65535 * (unat s div 65536)"
        using div_mult_mod_eq [of "unat s" 65536] by linarith
      then show ?thesis by (metis mod_mult_self2)
    qed
    then have "ones_sum (unat s div 65536 + unat s mod 65536) = ones_sum (unat s)"
      using div_mult_mod_eq [of "unat s" 65536] by (intro ones_sum_unique) auto
    with False 1 [OF False] d show ?thesis by (simp add: fold32.simps [of s])
  qed
qed

lemma be16_value: "unat (push_bit 8 (ucast (a :: byte)) OR ucast (b :: byte) :: u16) = 256 * unat a + unat b"
proof -
  have "put16 (push_bit 8 (ucast a) OR ucast b) = [a, b]" by (rule put16_be16) simp
  then show ?thesis using words_sum_put16 [of "push_bit 8 (ucast a) OR ucast b"] by simp
qed

lemma be_sum_value: "unat s + words_sum b < 2 ^ 32 \<Longrightarrow> unat (be_sum b s) = unat s + words_sum b"
proof (induction b s rule: be_sum.induct)
  case (1 x y xs s)
  let ?w = "ucast (push_bit 8 (ucast x) OR ucast y :: u16) :: u32"
  have w: "unat ?w = 256 * unat x + unat y"
    using be16_value [of x y] byte_bound [of x] byte_bound [of y]
    by (simp add: unsigned_ucast_eq take_bit_nat_eq_self)
  then have "unat (s + ?w) = unat s + (256 * unat x + unat y)"
    using "1.prems" by (simp add: unat_word_ariths)
  with 1 show ?case by simp
next
  case (2 x s)
  have "unat (push_bit 8 (ucast x) :: u32) = 256 * unat x"
    using byte_bound [of x] by (simp add: push_bit_eq_mult unat_word_ariths unsigned_ucast_eq take_bit_nat_eq_self)
  with 2 show ?case by (simp add: unat_word_ariths)
qed simp

lemma words_sum_bound: "words_sum b \<le> 65535 * ((length b + 1) div 2)"
proof (induction b rule: words_sum.induct)
  case (1 a b xs)
  then show ?case using byte_bound [of a] byte_bound [of b] by simp
next
  case (2 a)
  then show ?case using byte_bound [of a] by simp
qed simp

lemma icmp_checksum_value:
  assumes "length b \<le> 131070"
  shows "unat (icmp_checksum b) = 65535 - ones_sum (words_sum b)"
proof -
  have "(length b + 1) div 2 \<le> 65535" using assms by simp
  then have "words_sum b \<le> 65535 * 65535" using words_sum_bound [of b] by (meson le_trans mult_le_mono2)
  then have "unat (be_sum b 0) = words_sum b" by (subst be_sum_value) simp_all
  then have f: "unat (fold32 (be_sum b 0)) = ones_sum (words_sum b)" by (simp add: fold32_value)
  then have "unat (ucast (fold32 (be_sum b 0)) :: u16) = ones_sum (words_sum b)"
    using ones_sum_less [of "words_sum b"] by (simp add: unsigned_ucast_eq take_bit_nat_eq_self)
  then show ?thesis by (simp add: icmp_checksum_def unat_not16)
qed

section \<open>The messages the relay builds\<close>

definition icmp_body :: "byte \<Rightarrow> u16 \<Rightarrow> u16 \<Rightarrow> u16 \<Rightarrow> bytes \<Rightarrow> bytes" where
  "icmp_body kind chk eid seq payload = [kind, 0] @ put16 chk @ put16 eid @ put16 seq @ payload"

definition icmp_message :: "byte \<Rightarrow> u16 \<Rightarrow> u16 \<Rightarrow> bytes \<Rightarrow> bytes" where
  "icmp_message kind eid seq payload =
     icmp_body kind (icmp_checksum (icmp_body kind 0 eid seq payload)) eid seq payload"

lemma length_icmp_body [simp]: "length (icmp_body k c i s p) = 8 + length p"
  by (simp add: icmp_body_def)

lemma length_icmp_message [simp]: "length (icmp_message k i s p) = 8 + length p"
  by (simp add: icmp_message_def)

lemma words_sum_icmp_body:
  "words_sum (icmp_body k c i s p) = 256 * unat k + unat c + unat i + unat s + words_sum p"
  by (simp add: icmp_body_def words_sum_append)

lemma icmp_message_valid:
  assumes "length payload \<le> 131062"
  shows "checksum_valid (icmp_message kind eid seq payload)"
proof -
  let ?b = "icmp_body kind 0 eid seq payload"
  have "unat (icmp_checksum ?b) = 65535 - ones_sum (words_sum ?b)"
    using assms by (intro icmp_checksum_value) simp
  then have "ones_sum (words_sum ?b) + unat (icmp_checksum ?b) = 65535"
    using ones_sum_less [of "words_sum ?b"] by linarith
  from ones_sum_complement [OF this] show ?thesis
    by (simp add: checksum_valid_def icmp_message_def words_sum_icmp_body add_ac)
qed

text \<open>Filling a zeroed buffer field by field gives the message.\<close>

definition fill_icmp :: "byte \<Rightarrow> u16 \<Rightarrow> u16 \<Rightarrow> bytes \<Rightarrow> bytes option" where
  "fill_icmp kind eid seq payload = do {
     pkt \<leftarrow> store (replicate (icmpv4_min + length payload) 0) 0 kind;
     pkt \<leftarrow> copy_into pkt 4 6 (put16 eid);
     pkt \<leftarrow> copy_into pkt 6 8 (put16 seq);
     pkt \<leftarrow> copy_into pkt icmpv4_min (length pkt) payload;
     copy_into pkt 2 4 (put16 (icmp_checksum pkt)) }"

lemma copy_into_mid:
  "i = length pre \<Longrightarrow> j = i + length src \<Longrightarrow> length old = length src \<Longrightarrow>
   copy_into (pre @ old @ post) i j src = Some (pre @ src @ post)"
  by (simp add: copy_into_def)

lemma fill_icmp_message: "fill_icmp kind eid seq payload = Some (icmp_message kind eid seq payload)"
proof -
  have 1: "store (replicate (8 + length payload) 0) 0 kind = Some ([kind, 0, 0, 0] @ [0, 0] @ [0, 0] @ replicate (length payload) 0)"
    by (simp add: store_def numeral_eq_Suc)
  have 2: "copy_into ([kind, 0, 0, 0] @ [0, 0] @ [0, 0] @ replicate (length payload) 0) 4 6 (put16 eid) =
      Some ([kind, 0, 0, 0] @ put16 eid @ [0, 0] @ replicate (length payload) 0)"
    by (rule copy_into_mid) simp_all
  have 3: "copy_into ([kind, 0, 0, 0] @ put16 eid @ [0, 0] @ replicate (length payload) 0) 6 8 (put16 seq) =
      Some ([kind, 0, 0, 0] @ put16 eid @ put16 seq @ replicate (length payload) 0)"
    using copy_into_mid [of 6 "[kind, 0, 0, 0] @ put16 eid" 8 "put16 seq" "[0, 0]"] by simp
  have len: "length ([kind, 0, 0, 0] @ put16 eid @ put16 seq @ replicate (length payload) (0 :: byte)) = 8 + length payload"
    by simp
  have 4: "copy_into ([kind, 0, 0, 0] @ put16 eid @ put16 seq @ replicate (length payload) 0) 8 (8 + length payload) payload =
      Some ([kind, 0] @ [0, 0] @ put16 eid @ put16 seq @ payload)"
    using copy_into_mid [of 8 "[kind, 0, 0, 0] @ put16 eid @ put16 seq" "8 + length payload" payload
        "replicate (length payload) 0" "[]"] by simp
  have 5: "copy_into ([kind, 0] @ [0, 0] @ put16 eid @ put16 seq @ payload) 2 4 (put16 c) =
      Some ([kind, 0] @ put16 c @ put16 eid @ put16 seq @ payload)" for c
    by (rule copy_into_mid) simp_all
  have body: "icmp_body kind 0 eid seq payload = [kind, 0] @ [0, 0] @ put16 eid @ put16 seq @ payload"
    by (simp add: icmp_body_def put16_def)
  show ?thesis
    unfolding fill_icmp_def icmpv4_min_def 1 Option.bind.simps 2 3 len 4 5
    by (simp add: icmp_message_def body) (simp add: icmp_body_def)
qed

lemma echo_request_message: "echo_request host_id seq payload = Some (icmp_message icmp_echo host_id seq payload)"
  using fill_icmp_message [of icmp_echo host_id seq payload]
  by (simp add: echo_request_def fill_icmp_def Let_def)

text \<open>The reply frame the guest gets.\<close>

definition reply_fields :: "icmp_flow \<Rightarrow> ip4 \<Rightarrow> bytes \<Rightarrow> ip_fields" where
  "reply_fields flow src payload = \<lparr>if_total = of_nat (28 + length payload), if_ttl = 64, if_proto = 1,
     if_src = src, if_dst = fl_guest_ip flow\<rparr>"

definition reply_frame :: "icmp_flow \<Rightarrow> ip4 \<Rightarrow> bytes \<Rightarrow> frame" where
  "reply_frame flow src payload =
     eth_header \<lparr>ef_src = fl_src_mac flow, ef_dst = mac_bytes (fl_guest_mac flow), ef_type = 0x0800\<rparr> @
     ip_checked (reply_fields flow src payload) @ icmp_message 0 (fl_id flow) (fl_seq flow) payload"

lemma build_echo_reply_frame:
  assumes "headers_ok G"
  shows "build_echo_reply G flow src payload = Some (reply_frame flow src payload)"
proof -
  have "build_echo_reply G flow src payload = do {
     icmp \<leftarrow> fill_icmp icmp_echo_reply (fl_id flow) (fl_seq flow) payload;
     let ip = replicate 20 0 @ icmp;
     let ip = ip_encode G (reply_fields flow src payload) ip;
     let ip = ip_set_checksum G (NOT (ip_calc_checksum G ip)) ip;
     Some (eth_encode G \<lparr>ef_src = fl_src_mac flow, ef_dst = mac_bytes (fl_guest_mac flow), ef_type = 0x0800\<rparr>
       (replicate 14 0 @ ip)) }"
    unfolding build_echo_reply_def fill_icmp_def reply_fields_def Let_def
    by (simp add: hdr_consts add.assoc)
  then show ?thesis
    using assms by (simp add: fill_icmp_message Let_def ip_encode_checked eth_encode_front reply_frame_def
        icmp_echo_reply_def)
qed

section \<open>Guest requests\<close>

text \<open>
  An echo request frame of a guest: Ethernet and a 20-byte IPv4 header, the ICMP message, and
  the padding short Ethernet frames carry.
\<close>

definition guest_request :: "mac \<Rightarrow> mac \<Rightarrow> ip_fields \<Rightarrow> u16 \<Rightarrow> u16 \<Rightarrow> u16 \<Rightarrow> bytes \<Rightarrow> bytes \<Rightarrow> frame" where
  "guest_request gw guest ip chk eid seq payload padding =
     mac_bytes gw @ mac_bytes guest @ put16 0x0800 @ ip_checked ip @ icmp_body 8 chk eid seq payload @ padding"

lemma guest_request_parts:
  "length (guest_request gw guest ip chk eid seq payload padding) = 42 + length payload + length padding"
  "drop 14 (guest_request gw guest ip chk eid seq payload padding) =
     ip_checked ip @ icmp_body 8 chk eid seq payload @ padding"
  "drop 34 (guest_request gw guest ip chk eid seq payload padding) = icmp_body 8 chk eid seq payload @ padding"
  "u16_at (guest_request gw guest ip chk eid seq payload padding) 12 = Some 0x0800"
  "subslice (guest_request gw guest ip chk eid seq payload padding) 6 12 = Some (mac_bytes guest)"
  by (simp_all add: guest_request_def subslice_def u16_at_def)

lemma guest_request_src:
  "if_src ip = IP4 a b c d \<Longrightarrow>
   idx (guest_request gw guest ip chk eid seq payload padding) 26 = Some a \<and>
   idx (guest_request gw guest ip chk eid seq payload padding) 27 = Some b \<and>
   idx (guest_request gw guest ip chk eid seq payload padding) 28 = Some c \<and>
   idx (guest_request gw guest ip chk eid seq payload padding) 29 = Some d"
  by (simp add: guest_request_def ip_checked_def idx_def nth_append)

lemma icmp_body_fields:
  "idx (icmp_body k c i s p @ q) 0 = Some k" "u16_at (icmp_body k c i s p @ q) 4 = Some i"
  "u16_at (icmp_body k c i s p @ q) 6 = Some s"
  by (simp_all add: icmp_body_def idx_def u16_at_def subslice_def)

lemma parse_guest_request:
  assumes "headers_ok G" "if_proto ip = 1" "if_total ip = of_nat (28 + length payload)" "28 + length payload < 65536"
  shows "parse_echo_request G (guest_request gw guest ip chk eid seq payload padding) = Some (Some (if_dst ip, eid, seq, payload))"
proof -
  note f = ip_checked_fields [OF assms(1), of ip "icmp_body 8 chk eid seq payload @ padding"]
  have total: "unat (if_total ip) = 28 + length payload" using assms(4) unfolding assms(3) by (intro unat_of_nat16) simp
  have pay: "subslice (icmp_body 8 chk eid seq payload @ padding) 8 (8 + length payload) = Some payload"
    by (simp add: subslice_def icmp_body_def)
  show ?thesis
    using assms(2) by (simp add: parse_echo_request_def trusted_total_def hdr_consts guest_request_parts f
        subslice_from_def icmp_body_fields total pay)
qed

section \<open>No panic, and what a frame can change\<close>

lemma parse_echo_request_cases:
  shows "parse_echo_request G frame = Some None \<or>
    (\<exists>dst eid seq payload. parse_echo_request G frame = Some (Some (dst, eid, seq, payload)) \<and>
       42 \<le> length frame \<and> length payload + 22 \<le> length frame \<and> u16_at frame 12 = Some 0x0800)"
proof (cases "length frame < 42")
  case True
  then show ?thesis by (simp add: parse_echo_request_def hdr_consts)
next
  case False
  then obtain t where t: "u16_at frame 12 = Some t" using u16_at_defined [of 12 frame] by auto
  let ?ip = "drop 14 frame" and ?ihl = "unat (ip_header_length G (drop 14 frame))"
  have ip: "subslice_from frame 14 = Some ?ip" using False by (simp add: subslice_from_def)
  show ?thesis
  proof (cases "t = 0x0800 \<and> ip_protocol G ?ip = 1 \<and> 22 + ?ihl \<le> length frame")
    case False
    with t ip \<open>\<not> length frame < 42\<close> show ?thesis
      by (auto simp: parse_echo_request_def hdr_consts)
  next
    case True
    let ?icmp = "drop (14 + ?ihl) frame"
    from True have l: "8 \<le> length ?icmp" unfolding length_drop by linarith
    obtain i where i: "u16_at ?icmp 4 = Some i" using u16_at_defined [of 4 ?icmp] l by auto
    obtain s where s: "u16_at ?icmp 6 = Some s" using u16_at_defined [of 6 ?icmp] l by auto
    let ?total = "trusted_total (unat (ip_total_length G ?ip)) ?ihl (length frame)"
    have total: "?ihl + 8 \<le> ?total" "14 + ?total \<le> length frame"
      using True by (auto simp: trusted_total_def hdr_consts)
    have "8 \<le> ?total - ?ihl" using total by linarith
    moreover have "?total - ?ihl \<le> length ?icmp" unfolding length_drop using total by linarith
    ultimately have "subslice ?icmp 8 (?total - ?ihl) = Some (take (?total - ?ihl - 8) (drop 8 ?icmp))"
      by (rule subslice_in)
    then have "parse_echo_request G frame = (if ?icmp ! 0 = 8
        then Some (Some (ip4_of (ip_dst_addr G ?ip), i, s, take (?total - ?ihl - 8) (drop 8 ?icmp)))
        else Some None)"
      using True \<open>\<not> length frame < 42\<close> ip t i s total l
      by (simp add: parse_echo_request_def hdr_consts subslice_from_def idx_in Let_def
          del: nth_drop)
    with True total \<open>\<not> length frame < 42\<close> t show ?thesis by auto
  qed
qed

lemma icmp_handle_frame_total:
  "\<exists>r' sent consumed. icmp_handle_frame G now now' ok own frame r = Some (r', sent, consumed)"
proof (cases "ir_fd r < 0")
  case True
  then show ?thesis by (auto simp: icmp_handle_frame_def)
next
  case False
  from parse_echo_request_cases [of G frame] show ?thesis
  proof (elim disjE exE conjE)
    assume "parse_echo_request G frame = Some None"
    with False show ?thesis by (auto simp: icmp_handle_frame_def)
  next
    fix dst eid seq payload
    assume p: "parse_echo_request G frame = Some (Some (dst, eid, seq, payload))" and l: "42 \<le> length frame"
    from l have "idx frame 26 \<noteq> None" "idx frame 27 \<noteq> None" "idx frame 28 \<noteq> None" "idx frame 29 \<noteq> None"
        "subslice frame 6 12 \<noteq> None" by (simp_all add: idx_def subslice_def)
    with False p show ?thesis by (auto simp: icmp_handle_frame_def echo_request_message Let_def)
  qed
qed

text \<open>C29: The ping relay never panics and touches only its own flow: on every frame whatever, the
  handler returns; a frame is consumed only when it is an echo request to a foreign address
  that was sent out, with a valid checksum; the flow table then differs from the swept table
  at most at the fresh sequence number, and a request that could not be sent leaves no flow.\<close>

theorem icmp_frame_safe:
  "\<exists>r' sent consumed. icmp_handle_frame G now now' ok own frame r = Some (r', sent, consumed) \<and>
     (consumed \<longrightarrow> ok \<and> (\<exists>dst eid seq payload flow. parse_echo_request G frame = Some (Some (dst, eid, seq, payload)) \<and>
        \<not> own dst \<and> sent = Some (icmp_message icmp_echo (ir_host_id r) (ir_seq r + 1) payload, dst) \<and>
        ir_flows r' = (sweep now' (ir_flows r))(ir_seq r + 1 \<mapsto> flow) \<and> fl_id flow = eid \<and> fl_seq flow = seq)) \<and>
     (\<not> consumed \<longrightarrow> r' = r \<or> ir_flows r' = (sweep now' (ir_flows r))(ir_seq r + 1 := None))"
proof -
  obtain r' sent consumed where h: "icmp_handle_frame G now now' ok own frame r = Some (r', sent, consumed)"
    using icmp_handle_frame_total by blast
  then show ?thesis
    by (auto simp: icmp_handle_frame_def echo_request_message Let_def split: if_splits option.splits prod.splits bind_splits)
qed

definition ping_ip :: ip_fields where
  "ping_ip = \<lparr>if_total = 30, if_ttl = 64, if_proto = 1, if_src = IP4 10 0 2 15, if_dst = IP4 1 1 1 1\<rparr>"

definition ping_frame :: frame where
  "ping_frame = guest_request (MAC 0x7a 0x72 0x6d 0x3c 0xd7 0x23) (MAC 2 0 0 0 0 1) ping_ip 0 7 9 [0x61, 0x62] (replicate 16 0)"

definition relay_sample :: icmp_relay where
  "relay_sample = new_icmp_relay [0x7a, 0x72, 0x6d, 0x3c, 0xd7, 0x23] (Inr (5, 4242))"

lemma icmp_frame_safe_witness:
  "\<exists>r' sent consumed. icmp_handle_frame rfc 0 0 True (\<lambda>_. False) ping_frame relay_sample = Some (r', sent, consumed) \<and>
     (consumed \<longrightarrow> True \<and> (\<exists>dst eid seq payload flow. parse_echo_request rfc ping_frame = Some (Some (dst, eid, seq, payload)) \<and>
        \<not> False \<and> sent = Some (icmp_message icmp_echo (ir_host_id relay_sample) (ir_seq relay_sample + 1) payload, dst) \<and>
        ir_flows r' = (sweep 0 (ir_flows relay_sample))(ir_seq relay_sample + 1 \<mapsto> flow) \<and> fl_id flow = eid \<and> fl_seq flow = seq)) \<and>
     (\<not> consumed \<longrightarrow> r' = relay_sample \<or> ir_flows r' = (sweep 0 (ir_flows relay_sample))(ir_seq relay_sample + 1 := None))"
  by (rule icmp_frame_safe)

text \<open>C13: A ping through the relay comes back as the guest sent it. For a guest's echo request to
  a foreign address, whatever padding its frame carries, the relay sends a request with a
  valid checksum and the guest's payload; when an echo reply with the relay's sequence number
  arrives, from any address, the frame delivered goes from the relay's MAC to the guest's, has
  a valid IP header from the replying address to the guest, and is an echo reply with the
  guest's own identifier and sequence number, the reply's payload and a valid checksum; and
  the flow is used up.\<close>

theorem ping_round_trip:
  assumes G: "headers_ok G" and "0 \<le> ir_fd r" and "\<not> own (if_dst ip)"
    and "if_proto ip = 1" and "if_total ip = of_nat (28 + length payload)" and "28 + length payload < 65536"
    and "length answer < 65536"
    and frame: "frame = guest_request gw guest ip chk eid seq payload padding"
  shows "\<exists>r1 r2 out. icmp_handle_frame G now now' True own frame r =
        Some (r1, Some (icmp_message 8 (ir_host_id r) (ir_seq r + 1) payload, if_dst ip), True) \<and>
     checksum_valid (icmp_message 8 (ir_host_id r) (ir_seq r + 1) payload) \<and>
     handle_reply G (icmp_body 0 c x (ir_seq r + 1) answer) src r1 = Some (r2, Some out) \<and>
     take 14 out = mac_bytes guest @ pad 6 (ir_src_mac r) @ [8, 0] \<and>
     checksum_valid (take 20 (drop 14 out)) \<and> out ! 23 = 1 \<and>
     take 8 (drop 26 out) = ip4_bytes src @ ip4_bytes (if_src ip) \<and>
     drop 34 out = icmp_message 0 eid seq answer \<and> checksum_valid (drop 34 out) \<and>
     ir_flows r2 (ir_seq r + 1) = None"
proof -
  obtain a b c' d where src: "if_src ip = IP4 a b c' d" by (cases "if_src ip")
  define flow where "flow = \<lparr>fl_guest_mac = guest, fl_guest_ip = IP4 a b c' d, fl_dst = if_dst ip, fl_id = eid,
     fl_seq = seq, fl_deadline = now + icmp_flow_ttl, fl_src_mac = ir_src_mac r\<rparr>"
  define r1 where "r1 = r\<lparr>ir_seq := ir_seq r + 1, ir_flows := (sweep now' (ir_flows r))(ir_seq r + 1 \<mapsto> flow)\<rparr>"
  have h: "icmp_handle_frame G now now' True own frame r =
      Some (r1, Some (icmp_message 8 (ir_host_id r) (ir_seq r + 1) payload, if_dst ip), True)"
    using assms(2,3) parse_guest_request [OF G assms(4-6)] guest_request_src [OF src]
    by (simp add: frame icmp_handle_frame_def Let_def guest_request_parts echo_request_message icmp_echo_def
        r1_def flow_def src)
  let ?out = "reply_frame flow src answer"
  have reply: "handle_reply G (icmp_body 0 c x (ir_seq r + 1) answer) src r1 =
      Some (r1\<lparr>ir_flows := (ir_flows r1)(ir_seq r + 1 := None)\<rparr>, Some ?out)"
    using icmp_body_fields [of 0 c x "ir_seq r + 1" answer "[]"]
    by (simp add: handle_reply_def hdr_consts subslice_from_def build_echo_reply_frame [OF G] r1_def icmp_body_def)
  have out: "take 14 ?out = mac_bytes guest @ pad 6 (ir_src_mac r) @ [8, 0]"
    "take 20 (drop 14 ?out) = ip_checked (reply_fields flow src answer)"
    "drop 34 ?out = icmp_message 0 eid seq answer"
    by (simp_all add: reply_frame_def flow_def eth_header_def pad_exact put16_def)
  have mid: "out' ! 23 = 1 \<and> take 8 (drop 26 out') = ip4_bytes src @ ip4_bytes (if_src ip)"
    if "out' = eth_header e @ ip_checked (reply_fields flow src answer) @ rest" for out' e rest
    unfolding that by (simp add: ip_checked_def reply_fields_def flow_def src nth_append)
  have "?out ! 23 = 1 \<and> take 8 (drop 26 ?out) = ip4_bytes src @ ip4_bytes (if_src ip)"
    by (rule mid) (simp add: reply_frame_def)
  moreover have "checksum_valid (icmp_message 8 (ir_host_id r) (ir_seq r + 1) payload)"
      "checksum_valid (icmp_message 0 eid seq answer)"
    using assms(6,7) by (auto intro!: icmp_message_valid)
  ultimately show ?thesis
    using h reply out ip_checked_valid by (intro exI conjI) (assumption | simp)+
qed

lemma ping_round_trip_witness:
  "\<exists>r1 r2 out. icmp_handle_frame rfc 0 0 True (\<lambda>_. False) ping_frame relay_sample =
        Some (r1, Some (icmp_message 8 (ir_host_id relay_sample) (ir_seq relay_sample + 1) [0x61, 0x62], if_dst ping_ip), True) \<and>
     checksum_valid (icmp_message 8 (ir_host_id relay_sample) (ir_seq relay_sample + 1) [0x61, 0x62]) \<and>
     handle_reply rfc (icmp_body 0 0 4242 (ir_seq relay_sample + 1) [0x61, 0x62]) (IP4 1 1 1 1) r1 = Some (r2, Some out) \<and>
     take 14 out = mac_bytes (MAC 2 0 0 0 0 1) @ pad 6 (ir_src_mac relay_sample) @ [8, 0] \<and>
     checksum_valid (take 20 (drop 14 out)) \<and> out ! 23 = 1 \<and>
     take 8 (drop 26 out) = ip4_bytes (IP4 1 1 1 1) @ ip4_bytes (if_src ping_ip) \<and>
     drop 34 out = icmp_message 0 7 9 [0x61, 0x62] \<and> checksum_valid (drop 34 out) \<and>
     ir_flows r2 (ir_seq relay_sample + 1) = None"
  by (rule ping_round_trip [OF rfc_ok _ _ _ _ _ _ ping_frame_def])
    (simp_all add: relay_sample_def new_icmp_relay_def ping_ip_def)

definition short_ihl_frame :: frame where
  "short_ihl_frame = replicate 12 0 @ [0x08, 0x00, 0x41, 0, 0, 28, 8, 0, 0, 0, 64, 1, 0, 7, 10, 0, 2, 15, 1, 1, 1, 1]
     @ replicate 8 0"

text \<open>The echo parser accepts a frame whose IPv4 header length is below the minimum of 20 bytes:
  with a header length of one word the identification field is read as the ICMP header.\<close>

theorem short_ihl_accepted:
  assumes "headers_ok G"
  shows "unat (ip_header_length G (drop 14 short_ihl_frame)) = 4 \<and>
     (\<exists>e. parse_echo_request G short_ihl_frame = Some (Some e))"
proof -
  have ip: "ip_header_length G (drop 14 short_ihl_frame) = 4" "ip_protocol G (drop 14 short_ihl_frame) = 1"
    using ip_okD(1,2) [OF assms, of "drop 14 short_ihl_frame"] by (simp_all add: short_ihl_frame_def numeral_eq_Suc)
  have f: "length short_ihl_frame = 42" "u16_at short_ihl_frame 12 = Some 0x0800"
      "idx (drop 18 short_ihl_frame) 0 = Some 8"
    by code_simp+
  have "parse_echo_request G short_ihl_frame \<noteq> Some None"
    using ip f by (auto simp: parse_echo_request_def hdr_consts subslice_from_def Let_def split: bind_splits if_splits)
  with parse_echo_request_cases [of G short_ihl_frame] ip show ?thesis by auto
qed

lemma short_ihl_accepted_witness:
  "unat (ip_header_length rfc (drop 14 short_ihl_frame)) = 4 \<and>
     (\<exists>e. parse_echo_request rfc short_ihl_frame = Some (Some e))"
  by (rule short_ihl_accepted [OF rfc_ok])

end
