(* ===== verification/Link.thy ===== *)
theory Link
  imports Wire Headers
begin

text \<open>
  The Ethernet device between the guest's socket and the netstack,
  \<^verbatim>\<open>EtherEndpoint\<close> of \<^verbatim>\<open>internal/link/link.go\<close>, and the tap device of
  \<^verbatim>\<open>internal/tap/tap.go\<close>. The netstack behind the device is not part of the repository:
  injecting returns the protocol number and frame it is handed.
\<close>

section \<open>State\<close>

definition link_max :: nat where "link_max = 9216 + 14 + 4"
definition min_frame :: nat where "min_frame = ethernet_min"

record link_stats =
  rx_packets :: u64
  tx_packets :: u64
  rx_bytes :: u64
  tx_bytes :: u64
  dropped :: u64

record endpoint =
  ep_fd :: int
  ep_mtu :: u32
  ep_link_addr :: bytes
  ep_stats :: link_stats
  ep_guest_mac :: "bytes option"
  ep_sink :: bool

definition new_endpoint :: "int \<Rightarrow> u32 \<Rightarrow> bytes \<Rightarrow> endpoint" where
  "new_endpoint fd mtu addr = \<lparr>ep_fd = fd, ep_mtu = mtu, ep_link_addr = addr,
     ep_stats = \<lparr>rx_packets = 0, tx_packets = 0, rx_bytes = 0, tx_bytes = 0, dropped = 0\<rparr>,
     ep_guest_mac = None, ep_sink = False\<rparr>"

definition set_sink :: "endpoint \<Rightarrow> endpoint" where
  "set_sink e = e\<lparr>ep_sink := True\<rparr>"

definition count_drop :: "endpoint \<Rightarrow> endpoint" where
  "count_drop e = e\<lparr>ep_stats := (ep_stats e)\<lparr>dropped := dropped (ep_stats e) + 1\<rparr>\<rparr>"

section \<open>From the netstack to the switch\<close>

text \<open>One packet of the transmit pump: the endpoint and the frame handed to the sink.\<close>

definition pump_packet :: "bytes \<Rightarrow> endpoint \<Rightarrow> endpoint \<times> frame option" where
  "pump_packet b e =
     (if ep_sink e then
        (e\<lparr>ep_stats := (ep_stats e)\<lparr>tx_packets := tx_packets (ep_stats e) + 1,
             tx_bytes := tx_bytes (ep_stats e) + of_nat (length b)\<rparr>\<rparr>, Some b)
      else (count_drop e, None))"

text \<open>
  \<^verbatim>\<open>Start\<close>: packets until the channel is closed. The result lists the frames handed to
  the sink; the loop then returns the error that ends the process.
\<close>

fun pump :: "bytes list \<Rightarrow> endpoint \<Rightarrow> endpoint \<times> frame list" where
  "pump [] e = (e, [])"
| "pump (b # bs) e = (let (e, f) = pump_packet b e; (e, fs) = pump bs e in
     (e, (case f of Some x \<Rightarrow> x # fs | None \<Rightarrow> fs)))"

text \<open>The Ethernet header of an outbound packet, given the route's link address.\<close>

definition add_header :: "hdr_ops \<Rightarrow> endpoint \<Rightarrow> bytes \<Rightarrow> u16 \<Rightarrow> bytes" where
  "add_header G e remote proto = (
     let dst = (if remote = [] then (case ep_guest_mac e of Some m \<Rightarrow> m | None \<Rightarrow> eth_broadcast) else remote)
     in eth_encode G \<lparr>ef_src = ep_link_addr e, ef_dst = dst, ef_type = proto\<rparr> (replicate ethernet_min 0))"

section \<open>From the switch to the netstack\<close>

definition known_protocol :: "u16 \<Rightarrow> bool" where
  "known_protocol t \<longleftrightarrow> t = 0x0800 \<or> t = 0x86DD \<or> t = 0x0806"

text \<open>
  \<^verbatim>\<open>consume\<close> is the packet buffer's answer when the link header is taken off the front.
  The second result is what the netstack is handed.
\<close>

definition inject :: "(frame \<Rightarrow> bool) \<Rightarrow> frame \<Rightarrow> endpoint \<Rightarrow> (endpoint \<times> (u16 \<times> frame) option) option" where
  "inject consume frame e =
     (if length frame < min_frame then Some (count_drop e, None)
      else do {
        m \<leftarrow> subslice frame 6 12;
        let e = e\<lparr>ep_guest_mac := Some m\<rparr>;
        t \<leftarrow> u16_at frame 12;
        if \<not> known_protocol t then Some (count_drop e, None)
        else if \<not> consume frame then Some (count_drop e, None)
        else Some (e\<lparr>ep_stats := (ep_stats e)\<lparr>rx_packets := rx_packets (ep_stats e) + 1,
                       rx_bytes := rx_bytes (ep_stats e) + of_nat (length frame)\<rparr>\<rparr>,
                   Some (t, frame)) })"

section \<open>The guest's socket\<close>

text \<open>\<^verbatim>\<open>RecvFrame\<close>: as on the switch socket, and the sender's MAC is remembered.\<close>

definition link_recv :: "nat \<Rightarrow> sys_recv list \<Rightarrow> endpoint
    \<Rightarrow> ((recv_error + frame) \<times> sys_recv list \<times> endpoint) option" where
  "link_recv cap evs e = (case seq_recv cap evs of
       None \<Rightarrow> None
     | Some (Inl err, rest) \<Rightarrow> Some (Inl err, rest, e)
     | Some (Inr b, rest) \<Rightarrow>
         Some (Inr b, rest, if 12 \<le> length b then e\<lparr>ep_guest_mac := Some (take 6 (drop 6 b))\<rparr> else e))"

definition link_send :: "sys_send list \<Rightarrow> (string option \<times> sys_send list) option" where
  "link_send evs = seq_send evs"

section \<open>The tap device\<close>

datatype tap_error = TapNameTooLong | TapOpen | TapIoctl

definition iff_tap :: u16 where "iff_tap = 0x0002"
definition iff_no_pi :: u16 where "iff_no_pi = 0x1000"

text \<open>The interface request: 16 bytes of name and the flags.\<close>

definition tap_request :: "string \<Rightarrow> bytes \<times> u16" where
  "tap_request name = (take 16 (map of_char name @ replicate 16 0), iff_tap OR iff_no_pi)"

definition trim_nuls :: "bytes \<Rightarrow> string" where
  "trim_nuls b = map (\<lambda>x. char_of (unat x)) (rev (dropWhile (\<lambda>x. x = 0) (rev b)))"

text \<open>
  \<open>opened\<close> is the descriptor of \<^verbatim>\<open>/dev/net/tun\<close> and \<open>ioctl\<close> what the kernel makes of
  a request: the name it chose. The first result lists descriptors closed again.
\<close>

definition tap_open :: "int option \<Rightarrow> (bytes \<times> u16 \<Rightarrow> bytes option) \<Rightarrow> string \<Rightarrow> int list \<times> (tap_error + (int \<times> string))" where
  "tap_open opened ioctl name =
     (if length name > 15 then ([], Inl TapNameTooLong)
      else (case opened of
          None \<Rightarrow> ([], Inl TapOpen)
        | Some fd \<Rightarrow> (case ioctl (tap_request name) of
              None \<Rightarrow> ([fd], Inl TapIoctl)
            | Some chosen \<Rightarrow> ([], Inr (fd, trim_nuls chosen)))))"

section \<open>Properties\<close>

lemma inject_cases:
  "inject consume frame e =
    (if length frame < 14 then Some (count_drop e, None)
     else let e' = e\<lparr>ep_guest_mac := Some (take 6 (drop 6 frame))\<rparr>;
              t = push_bit 8 (ucast (frame ! 12)) OR ucast (frame ! 13) in
       if \<not> known_protocol t \<or> \<not> consume frame then Some (count_drop e', None)
       else Some (e'\<lparr>ep_stats := (ep_stats e)\<lparr>rx_packets := rx_packets (ep_stats e) + 1,
                       rx_bytes := rx_bytes (ep_stats e) + of_nat (length frame)\<rparr>\<rparr>, Some (t, frame)))"
  by (auto simp: inject_def min_frame_def hdr_consts bounds_simps Let_def)

text \<open>Injecting never panics and the netstack's answers go back to whoever spoke last: a frame
  shorter than an Ethernet header only counts a drop, and after any longer frame, handed to
  the netstack or not, an outbound packet without a resolved link address is addressed to the
  source MAC of that frame, from the device's own address.\<close>

theorem link_answers_sender:
  assumes "headers_ok G"
  shows "\<exists>e' res. inject consume frame e = Some (e', res) \<and>
     (res = None \<or> (\<exists>t. res = Some (t, frame) \<and> u16_at frame 12 = Some t \<and> known_protocol t)) \<and>
     (if length frame < 14 then e' = count_drop e
      else add_header G e' [] proto = take 6 (drop 6 frame) @ pad 6 (ep_link_addr e) @ put16 proto)"
proof (cases "length frame < 14")
  case True
  then show ?thesis by (simp add: inject_cases)
next
  case False
  then have m: "length (take 6 (drop 6 frame)) = 6" by simp
  have "add_header G e' [] proto = take 6 (drop 6 frame) @ pad 6 (ep_link_addr e) @ put16 proto"
    if "ep_guest_mac e' = Some (take 6 (drop 6 frame))" "ep_link_addr e' = ep_link_addr e" for e'
    using that eth_encode_front [OF assms, of "replicate 14 0" _ "[]"] pad_exact [OF m]
    by (simp add: add_header_def hdr_consts eth_header_def)
  with False show ?thesis
    by (simp add: inject_cases count_drop_def Let_def u16_at_in)
qed

definition link_sample_frame :: frame where
  "link_sample_frame = replicate 6 0xff @ [2, 0, 0, 0, 0, 1, 8, 6]"

definition link_sample :: endpoint where
  "link_sample = new_endpoint 3 1500 [1, 2, 3, 4, 5, 6]"

lemma link_answers_sender_witness:
  "\<exists>e' res. inject (\<lambda>_. True) link_sample_frame link_sample = Some (e', res) \<and>
     (res = None \<or> (\<exists>t. res = Some (t, link_sample_frame) \<and> u16_at link_sample_frame 12 = Some t \<and> known_protocol t)) \<and>
     (if length link_sample_frame < 14 then e' = count_drop link_sample
      else add_header rfc e' [] 0x0800 = take 6 (drop 6 link_sample_frame) @ pad 6 (ep_link_addr link_sample) @ put16 0x0800)"
  by (rule link_answers_sender [OF rfc_ok])



end
