(* ===== verification/Uplink.thy ===== *)
theory Uplink
  imports VSwitch DhcpServer Icmp Link Config Elect "HOL-Library.Multiset"
begin

text \<open>
  The parts of \<^verbatim>\<open>main.go\<close> around the uplink port: the command line, the choice of the
  link MTU and of the switch socket, the sink that decides what the netstack sees, and the
  lease table as it goes into a heartbeat and comes out of one.
\<close>

section \<open>Start-up\<close>

text \<open>
  \<^verbatim>\<open>parseArgs\<close>: the loop over the arguments with the description, descriptor and VNL
  string so far.
\<close>

function parse_args_loop :: "string list \<Rightarrow> string \<times> int \<times> string \<Rightarrow> string \<times> int \<times> string" where
  "parse_args_loop [] acc = acc"
| "parse_args_loop (arg # argv) (descr, fd, vnl) =
     (case cut_prefix arg ''seqpacket://'' of
        Some rest \<Rightarrow> parse_args_loop argv (descr, (case atoi rest of Some n \<Rightarrow> n | None \<Rightarrow> fd), vnl)
      | None \<Rightarrow>
          (case cut_prefix arg ''--descr'' of
             Some rest \<Rightarrow>
               if has_prefix rest ''='' then parse_args_loop argv (drop 1 rest, fd, vnl)
               else if rest = '''' \<and> argv \<noteq> [] then parse_args_loop (tl argv) (hd argv, fd, vnl)
               else parse_args_loop argv (descr, fd, vnl)
           | None \<Rightarrow>
               if has_prefix arg ''-'' then parse_args_loop argv (descr, fd, vnl)
               else if descr = '''' then parse_args_loop argv (arg, fd, vnl)
               else parse_args_loop argv (descr, fd, arg)))"
  by pat_completeness auto
termination parse_args_loop
  by (relation "measure (\<lambda>(argv, acc). length argv)") auto

declare parse_args_loop.simps(2) [simp del]

definition parse_args :: "string list \<Rightarrow> string \<times> int \<times> string" where
  "parse_args argv = parse_args_loop argv ('''', -1, '''')"

definition vnl_params :: "string \<Rightarrow> string" where
  "vnl_params vnl = (case cut_prefix vnl ''slirp://'' of Some rest \<Rightarrow> rest | None \<Rightarrow> '''')"

text \<open>The link MTU: the configured one when it passes the two tests, with Go's conversion to 32 bits.\<close>

definition link_mtu :: "int \<Rightarrow> u32" where
  "link_mtu cfg_mtu =
     (let mtu = of_nat (link_max - 18) in
      if 68 \<le> cfg_mtu \<and> of_int cfg_mtu \<le> mtu then of_int cfg_mtu else mtu)"

text \<open>
  \<open>writable\<close> is the result of the probe of \<^verbatim>\<open>dirWritable\<close>, \<open>env\<close> and \<open>tmp\<close> are
  \<^verbatim>\<open>VDE_SWITCH_SOCKET\<close> and \<^verbatim>\<open>TMPDIR\<close>.
\<close>

definition resolve_switch_socket :: "config \<Rightarrow> string \<Rightarrow> string \<Rightarrow> (string \<Rightarrow> bool) \<Rightarrow> string \<Rightarrow> string" where
  "resolve_switch_socket cfg env tmp writable selfDir =
     (if cf_socket cfg \<noteq> '''' then cf_socket cfg
      else if env \<noteq> '''' then env
      else if writable ''/tmp'' then ''/tmp/vde.socket''
      else if tmp \<noteq> '''' \<and> writable tmp then path_join tmp ''vde.socket''
      else if writable selfDir then path_join selfDir ''vde.socket''
      else ''vde.socket'')"

text \<open>The device's MAC, from its text.\<close>

definition parse_hex8 :: "string \<Rightarrow> byte" where
  "parse_hex8 p =
     (if p = [] \<or> (\<exists>c \<in> set p. \<not> is_hex c) then 0
      else if hex_val p > 255 then 255 else of_nat (hex_val p))"

fun store_all :: "bytes \<Rightarrow> nat \<Rightarrow> bytes \<Rightarrow> bytes option" where
  "store_all out i [] = Some out"
| "store_all out i (x # xs) = Option.bind (store out i x) (\<lambda>out. store_all out (Suc i) xs)"

definition must_mac_bytes :: "string \<Rightarrow> bytes option" where
  "must_mac_bytes s = store_all (replicate 6 0) 0 (map parse_hex8 (split_on CHR '':'' s))"

definition vde_mac :: bytes where
  "vde_mac = (case must_mac_bytes ''7a:72:6d:3c:d7:23'' of Some b \<Rightarrow> b | None \<Rightarrow> [])"

section \<open>Addresses of the netstack\<close>

definition own_addrs :: "config \<Rightarrow> ip4 \<Rightarrow> bool" where
  "own_addrs cfg a \<longleftrightarrow> to4 (parse_ip (cf_gateway cfg)) = Some a \<or> to4 (parse_ip (cf_nameserver cfg)) = Some a"

definition arp_for_own_addr :: "frame \<Rightarrow> (ip4 \<Rightarrow> bool) \<Rightarrow> bool option" where
  "arp_for_own_addr frame own =
     (if length frame < 14 then Some True
      else do {
        t \<leftarrow> u16_at frame 12;
        if t \<noteq> 0x0806 then Some True
        else if length frame < 14 + 28 then Some False
        else do {
          arp \<leftarrow> subslice_from frame 14;
          op \<leftarrow> u16_at arp 6;
          if op \<noteq> 1 then Some True
          else do {
            tpa \<leftarrow> subslice arp 24 28;
            Some (own (ip4_of tpa)) } } })"

section \<open>The uplink port\<close>

text \<open>
  \<^verbatim>\<open>uplinkSink.SendFrame\<close>: the DHCP server, if there is one, then the ping relay, then the
  ARP filter, then the netstack. What happened to the frame is the result:
\<close>

datatype uplink_result =
    Answered frame
  | Relayed bytes ip4
  | Shed
  | Injected u16 frame
  | NotInjected

record uplink_sink =
  ul_dhcp :: "dhcp_server option"
  ul_pool :: pool
  ul_icmp :: icmp_relay
  ul_link :: endpoint
  ul_own :: "ip4 \<Rightarrow> bool"

text \<open>
  \<open>t1\<close>, \<open>t2\<close> and \<open>ok\<close> are the relay's clock readings and the host socket's answer,
  \<open>consume\<close> the packet buffer's. \<open>None\<close> is a panic.
\<close>

definition uplink_dhcp :: "'m dhcp_ops \<Rightarrow> hdr_ops \<Rightarrow> frame \<Rightarrow> uplink_sink \<Rightarrow> (uplink_sink \<times> frame option) option" where
  "uplink_dhcp D G frame u = (case ul_dhcp u of
       None \<Rightarrow> Some (u, None)
     | Some srv \<Rightarrow> map_option (\<lambda>(p, reply). (u\<lparr>ul_pool := p\<rparr>, reply)) (dhcp_handle_frame D G srv frame (ul_pool u)))"

definition uplink_send :: "'m dhcp_ops \<Rightarrow> hdr_ops \<Rightarrow> int \<Rightarrow> int \<Rightarrow> bool \<Rightarrow> (frame \<Rightarrow> bool) \<Rightarrow> frame \<Rightarrow> uplink_sink
    \<Rightarrow> (uplink_sink \<times> uplink_result) option" where
  "uplink_send D G t1 t2 ok consume frame u = do {
     (u, reply) \<leftarrow> uplink_dhcp D G frame u;
     case reply of
       Some r \<Rightarrow> Some (u, Answered r)
     | None \<Rightarrow> do {
         (icmp, sent, consumed) \<leftarrow> icmp_handle_frame G t1 t2 ok (ul_own u) frame (ul_icmp u);
         let u = u\<lparr>ul_icmp := icmp\<rparr>;
         if consumed then
           (case sent of Some (pkt, dst) \<Rightarrow> Some (u, Relayed pkt dst) | None \<Rightarrow> Some (u, NotInjected))
         else do {
           mine \<leftarrow> arp_for_own_addr frame (ul_own u);
           if \<not> mine then Some (u, Shed)
           else do {
             (l, res) \<leftarrow> inject consume frame (ul_link u);
             Some (u\<lparr>ul_link := l\<rparr>, case res of Some (t, f) \<Rightarrow> Injected t f | None \<Rightarrow> NotInjected) } } } }"

section \<open>Leases in heartbeats\<close>

text \<open>The pool's printed leases parsed back, in the order \<^verbatim>\<open>range\<close> visits the map.\<close>

definition snapshot_entry :: "string \<times> string \<Rightarrow> lease option" where
  "snapshot_entry e = (case e of (macStr, ipStr) \<Rightarrow>
     (case parse_mac macStr of
        None \<Rightarrow> None
      | Some hw \<Rightarrow>
          (case to4 (parse_ip ipStr) of
             None \<Rightarrow> None
           | Some ip \<Rightarrow> Some \<lparr>l_mac = mac_of hw, l_ip = ip\<rparr>)))"

definition pool_snapshot :: "pool \<Rightarrow> lease list" where
  "pool_snapshot p = List.map_filter snapshot_entry (leases p)"

definition lease_map :: "lease list \<Rightarrow> (mac \<times> ip4) list" where
  "lease_map ls = fold (\<lambda>l m. AList.update (l_mac l) (l_ip l) m) ls []"

text \<open>The frame one beat of \<^verbatim>\<open>sendBeacons\<close> floods; without a pool the table stays empty.\<close>

definition beacon_frame :: "pool option \<Rightarrow> u32 \<Rightarrow> frame option" where
  "beacon_frame pool seq =
     encode_beacon vde_mac seq (case pool of Some p \<Rightarrow> pool_snapshot p | None \<Rightarrow> [])"

text \<open>
  What \<^verbatim>\<open>runInstance\<close> makes of the configured DHCP start: no pool, or the pool seeded with
  the leases an earlier hub gossiped. The outer \<open>None\<close> is the panic of
  \<^verbatim>\<open>UsableLeases\<close>.
\<close>

definition hub_pool :: "config \<Rightarrow> (mac \<times> ip4) list \<Rightarrow> pool option option" where
  "hub_pool cfg seed =
     (let start = parse_ip (cf_dhcp_start cfg) in
      if start \<noteq> [] \<and> cf_dhcp_start cfg \<noteq> '''' then
        (case usable_leases (cf_network cfg) start 256 of
           None \<Rightarrow> None
         | Some n \<Rightarrow>
             if n = 0 then Some None
             else Some (Some (let p = new_pool start n in if seed \<noteq> [] then restore seed p else p)))
      else Some None)"

section \<open>The lease table survives a change of hub\<close>

lemma snapshot_entry_printed [simp]:
  "snapshot_entry (hw_string (mac_bytes m), ip4_string a) = Some \<lparr>l_mac = m, l_ip = a\<rparr>"
  by (simp add: snapshot_entry_def)

lemma snapshot_printed:
  "List.map_filter snapshot_entry (map (\<lambda>(m, a). (hw_string (mac_bytes m), ip4_string a)) xs) =
     map (\<lambda>(m, a). \<lparr>l_mac = m, l_ip = a\<rparr>) xs"
  by (induction xs) (auto simp: List.map_filter_def)

lemma snapshot_leases:
  assumes "mset es = mset (leases p)"
  shows "mset (List.map_filter snapshot_entry es) = mset (map (\<lambda>(m, a). \<lparr>l_mac = m, l_ip = a\<rparr>) (assigned p))"
proof -
  have "mset (List.map_filter snapshot_entry es) = mset (List.map_filter snapshot_entry (leases p))"
    using assms by (simp add: List.map_filter_def mset_map mset_filter)
  also have "List.map_filter snapshot_entry (leases p) = map (\<lambda>(m, a). \<lparr>l_mac = m, l_ip = a\<rparr>) (assigned p)"
    unfolding leases_def by (rule snapshot_printed)
  finally show ?thesis .
qed

lemma lease_map_distinct:
  "distinct (map l_mac ls) \<Longrightarrow> lease_map ls = map (\<lambda>l. (l_mac l, l_ip l)) ls"
proof (induction ls rule: rev_induct)
  case (snoc l ls)
  then show ?case by (simp add: lease_map_def alist_update_fresh o_def)
qed (simp add: lease_map_def)

lemma lease_map_snapshot:
  assumes "pool_inv p" "mset es = mset (leases p)"
  shows "set (lease_map (List.map_filter snapshot_entry es)) = set (assigned p) \<and>
     distinct (map fst (lease_map (List.map_filter snapshot_entry es)))"
proof -
  let ?ls = "List.map_filter snapshot_entry es"
  let ?g = "\<lambda>(m, a). \<lparr>l_mac = m, l_ip = a\<rparr>"
  note m = snapshot_leases [OF assms(2)]
  have "distinct (map fst (assigned p))" using assms(1) by (simp add: pool_inv_keys) (simp add: pool_inv_def)
  then have "distinct (map l_mac (map ?g (assigned p)))" by (simp add: case_prod_beta' o_def)
  moreover have "mset (map l_mac ?ls) = mset (map l_mac (map ?g (assigned p)))"
    by (simp only: mset_map [of l_mac] m)
  ultimately have d: "distinct (map l_mac ?ls)" by (metis mset_eq_imp_distinct_iff)
  have "set ?ls = set (map ?g (assigned p))" using m by (metis set_mset_mset)
  then have "set (lease_map ?ls) = (\<lambda>l. (l_mac l, l_ip l)) ` ?g ` set (assigned p)"
    using d by (simp add: lease_map_distinct)
  also have "\<dots> = set (assigned p)" by (force simp: image_iff)
  finally show ?thesis using d by (simp add: lease_map_distinct o_def)
qed




end
