(* ===== verification/Fleet.thy ===== *)
theory Fleet
  imports Systems Wire
begin

text \<open>
  The failover loop of \<^verbatim>\<open>main.go\<close> (\<^verbatim>\<open>fleet.loop\<close>) and the hub seat of
  \<^verbatim>\<open>internal/elect/elect.go\<close> (\<^verbatim>\<open>TryLock\<close>): one instance as functions on its state,
  one per point of the loop, and any number of instances on one switch socket as a step
  relation. The call of \<^verbatim>\<open>BindOrConnect\<close> is one step: it runs under the seat, so no
  other instance of the fleet changes the socket file or listens meanwhile.
\<close>

section \<open>The hub seat\<close>

text \<open>
  \<^verbatim>\<open>elect.TryLock\<close>: the lock file's descriptor, if it could be opened, and whether the
  kernel granted the exclusive lock. The first result lists descriptors closed again.
\<close>

datatype lock_error = LockOpen | SeatHeld

definition lock_path :: "string \<Rightarrow> string" where
  "lock_path socketPath = socketPath @ ''.lock''"

definition try_lock :: "int option \<Rightarrow> bool \<Rightarrow> int list \<times> (lock_error + int)" where
  "try_lock opened flocked = (case opened of
       None \<Rightarrow> ([], Inl LockOpen)
     | Some fd \<Rightarrow> if \<not> flocked then ([fd], Inl SeatHeld) else ([], Inr fd))"

section \<open>One instance\<close>

text \<open>
  Where an instance is in \<^verbatim>\<open>fleet.loop\<close>, its backoff in nanoseconds, and the number of
  connections it has dropped without closing them.
\<close>

datatype phase =
    Discover
  | Contend
  | Seated int
  | AsPeer nat
  | AsHub listener
  | Closing
  | Exited

record inst =
  in_phase :: phase
  in_backoff :: int
  in_abandoned :: nat

definition backoff_start :: int where "backoff_start = 250 * 1000000"
definition backoff_limit :: int where "backoff_limit = 2 * 1000000000"

definition start_inst :: inst where
  "start_inst = \<lparr>in_phase = Discover, in_backoff = backoff_start, in_abandoned = 0\<rparr>"

text \<open>Join an existing hub?\<close>

definition probe :: "join_error + nat \<Rightarrow> inst \<Rightarrow> inst" where
  "probe r x = (case r of
       Inr conn \<Rightarrow> x\<lparr>in_phase := AsPeer conn, in_backoff := backoff_start\<rparr>
     | Inl _ \<Rightarrow> x\<lparr>in_phase := Contend\<rparr>)"

text \<open>
  Nobody answered: contend for the seat. The second result is the time slept;
  \<open>rnd\<close> is the answer of \<^verbatim>\<open>rand.Intn(int(backoff/2))\<close>.
\<close>

definition retry_delay :: "int \<Rightarrow> int \<Rightarrow> int" where
  "retry_delay backoff rnd = backoff + (rnd + 1)"

definition contend :: "lock_error + int \<Rightarrow> int \<Rightarrow> inst \<Rightarrow> inst \<times> int" where
  "contend r rnd x = (case r of
       Inr fd \<Rightarrow> (x\<lparr>in_phase := Seated fd\<rparr>, 0)
     | Inl _ \<Rightarrow> (x\<lparr>in_phase := Discover,
           in_backoff := (if in_backoff x < backoff_limit then in_backoff x * 2 else in_backoff x)\<rparr>,
         retry_delay (in_backoff x) rnd))"

text \<open>
  Under the seat: the answer of \<^verbatim>\<open>BindOrConnect\<close>. The connection it may return is
  dropped by the \<^verbatim>\<open>continue\<close>. The second result says that the seat was released.
\<close>

definition take_office :: "join_error + joined \<Rightarrow> inst \<Rightarrow> inst \<times> bool" where
  "take_office r x = (case r of
       Inl _ \<Rightarrow> (x\<lparr>in_phase := Exited\<rparr>, True)
     | Inr (Peer conn) \<Rightarrow> (x\<lparr>in_phase := Discover, in_abandoned := in_abandoned x + 1\<rparr>, True)
     | Inr (Hub l) \<Rightarrow> (x\<lparr>in_phase := AsHub l\<rparr>, False))"

definition hub_lost :: "inst \<Rightarrow> inst" where
  "hub_lost x = x\<lparr>in_phase := Discover\<rparr>"

text \<open>
  One pass through the loop's body, up to where the instance becomes a peer or the hub,
  with the kernel's answers to the two socket operations and to the lock.
\<close>

definition loop_pass :: "kernel \<Rightarrow> kernel \<Rightarrow> string \<Rightarrow> u32 \<Rightarrow> bool \<Rightarrow> int \<Rightarrow> inst \<Rightarrow> inst \<times> int" where
  "loop_pass K1 K2 path mode flocked rnd x = (
     let x = probe (snd (unix_try_connect K1)) x in
     if in_phase x \<noteq> Contend then (x, 0)
     else
       let (x, slept) = contend (snd (try_lock (Some 0) flocked)) rnd x in
       (case in_phase x of
          Seated fd \<Rightarrow> (fst (take_office (snd (unix_bind_or_connect K2 path mode)) x), slept)
        | _ \<Rightarrow> (x, slept)))"

lemmas loop_defs = probe_def contend_def take_office_def hub_lost_def

section \<open>A fleet\<close>

text \<open>
  Any number of instances on one switch socket: the holder of the lock, and the socket file,
  with its identity and the instance that listens on it, if that one still does.
\<close>

record fleet =
  fl_inst :: "nat \<Rightarrow> inst"
  fl_seat :: "nat option"
  fl_file :: "((u64 \<times> u64) \<times> nat option) option"

definition live_hub :: "fleet \<Rightarrow> nat option" where
  "live_hub s = (case fl_file s of None \<Rightarrow> None | Some (_, owner) \<Rightarrow> owner)"

definition put_inst :: "nat \<Rightarrow> inst \<Rightarrow> fleet \<Rightarrow> fleet" where
  "put_inst i x s = s\<lparr>fl_inst := (fl_inst s)(i := x)\<rparr>"

definition release_seat :: "nat \<Rightarrow> fleet \<Rightarrow> fleet" where
  "release_seat i s = (if fl_seat s = Some i then s\<lparr>fl_seat := None\<rparr> else s)"

definition stop_listening :: "nat \<Rightarrow> fleet \<Rightarrow> fleet" where
  "stop_listening i s = (case fl_file s of
       Some (fid, Some j) \<Rightarrow> if j = i then s\<lparr>fl_file := Some (fid, None)\<rparr> else s
     | _ \<Rightarrow> s)"

text \<open>
  What a kernel's answers have to do with the fleet: a connect succeeds only when somebody
  listens (it may fail all the same), and the path is a socket exactly when the file is there.
\<close>

definition kernel_fits :: "kernel \<Rightarrow> fleet \<Rightarrow> bool" where
  "kernel_fits K s \<longleftrightarrow> ((\<exists>k. connect_ok K k) \<longrightarrow> live_hub s \<noteq> None) \<and> (path_is_socket K \<longleftrightarrow> fl_file s \<noteq> None)"

text \<open>
  Steps of the fleet. The lock is granted only while nobody holds it; an instance that
  fails under the seat leaves the file or has removed it; a hub shuts down by closing its
  listener and then releasing the seat; any instance can be killed at any time, and then
  the kernel drops its lock and its listener and leaves the file behind.
\<close>

inductive fleet_step :: "fleet \<Rightarrow> fleet \<Rightarrow> bool" where
  fleet_probe: "in_phase (fl_inst s i) = Discover \<Longrightarrow> kernel_fits K s \<Longrightarrow>
     fleet_step s (put_inst i (probe (snd (unix_try_connect K)) (fl_inst s i)) s)"
| fleet_lock: "in_phase (fl_inst s i) = Contend \<Longrightarrow> fl_seat s = None \<Longrightarrow> snd (try_lock opened True) = Inr fd \<Longrightarrow>
     fleet_step s (put_inst i (fst (contend (Inr fd) rnd (fl_inst s i))) s\<lparr>fl_seat := Some i\<rparr>)"
| fleet_retry: "in_phase (fl_inst s i) = Contend \<Longrightarrow> snd (try_lock opened flocked) = Inl e \<Longrightarrow>
     fleet_step s (put_inst i (fst (contend (Inl e) rnd (fl_inst s i))) s)"
| fleet_bound: "in_phase (fl_inst s i) = Seated fd \<Longrightarrow> kernel_fits K s \<Longrightarrow>
     snd (unix_bind_or_connect K path mode) = Inr (Hub l) \<Longrightarrow> bound_id K \<in> {None, Some fid} \<Longrightarrow>
     fleet_step s (put_inst i (fst (take_office (Inr (Hub l)) (fl_inst s i))) s\<lparr>fl_file := Some (fid, Some i)\<rparr>)"
| fleet_not_bound: "in_phase (fl_inst s i) = Seated fd \<Longrightarrow> kernel_fits K s \<Longrightarrow>
     snd (unix_bind_or_connect K path mode) = r \<Longrightarrow> (\<And>l. r \<noteq> Inr (Hub l)) \<Longrightarrow> f \<in> {None, fl_file s} \<Longrightarrow>
     fleet_step s (release_seat i (put_inst i (fst (take_office r (fl_inst s i))) s\<lparr>fl_file := f\<rparr>))"
| fleet_hub_lost: "in_phase (fl_inst s i) = AsPeer conn \<Longrightarrow>
     fleet_step s (put_inst i (hub_lost (fl_inst s i)) s)"
| fleet_close: "in_phase (fl_inst s i) = AsHub l \<Longrightarrow>
     f = (if listener_close l (map_option fst (fl_file s)) then None else fl_file (stop_listening i s)) \<Longrightarrow>
     fleet_step s (put_inst i ((fl_inst s i)\<lparr>in_phase := Closing\<rparr>) s\<lparr>fl_file := f\<rparr>)"
| fleet_exit: "in_phase (fl_inst s i) = Closing \<Longrightarrow>
     fleet_step s (release_seat i (put_inst i ((fl_inst s i)\<lparr>in_phase := Exited\<rparr>) s))"
| fleet_killed: "fleet_step s (release_seat i (stop_listening i (put_inst i ((fl_inst s i)\<lparr>in_phase := Exited\<rparr>) s)))"

definition fleet_initial :: "fleet \<Rightarrow> bool" where
  "fleet_initial s \<longleftrightarrow> fl_inst s = (\<lambda>_. start_inst) \<and> fl_seat s = None \<and> live_hub s = None"

section \<open>The invariant\<close>

definition holds_seat :: "phase \<Rightarrow> bool" where
  "holds_seat p = (case p of Seated _ \<Rightarrow> True | AsHub _ \<Rightarrow> True | Closing \<Rightarrow> True | _ \<Rightarrow> False)"

definition is_hub :: "phase \<Rightarrow> bool" where
  "is_hub p = (case p of AsHub _ \<Rightarrow> True | _ \<Rightarrow> False)"

lemma phase_simps [simp]:
  "holds_seat (Seated fd)" "holds_seat (AsHub l)" "holds_seat Closing"
  "\<not> holds_seat Discover" "\<not> holds_seat Contend" "\<not> holds_seat (AsPeer k)" "\<not> holds_seat Exited"
  "is_hub (AsHub l)" "\<not> is_hub (Seated fd)" "\<not> is_hub Closing" "\<not> is_hub Discover" "\<not> is_hub Contend"
  "\<not> is_hub (AsPeer k)" "\<not> is_hub Exited"
  by (simp_all add: holds_seat_def is_hub_def)

lemma is_hub_holds: "is_hub p \<Longrightarrow> holds_seat p"
  by (cases p) simp_all

definition backoffs :: "int set" where
  "backoffs = {250 * 1000000, 500 * 1000000, 1000 * 1000000, 2000 * 1000000}"

definition fleet_inv :: "fleet \<Rightarrow> bool" where
  "fleet_inv s \<longleftrightarrow>
     (\<forall>i. holds_seat (in_phase (fl_inst s i)) \<longleftrightarrow> fl_seat s = Some i) \<and>
     (\<forall>i. is_hub (in_phase (fl_inst s i)) \<longleftrightarrow> live_hub s = Some i) \<and>
     (\<forall>i. in_backoff (fl_inst s i) \<in> backoffs \<and> in_abandoned (fl_inst s i) = 0)"

lemma fleet_invD:
  assumes "fleet_inv s"
  shows "holds_seat (in_phase (fl_inst s i)) \<longleftrightarrow> fl_seat s = Some i"
    and "is_hub (in_phase (fl_inst s i)) \<longleftrightarrow> live_hub s = Some i"
    and "in_backoff (fl_inst s i) \<in> backoffs" "in_abandoned (fl_inst s i) = 0"
  using assms by (simp_all add: fleet_inv_def)

lemma put_inst_simps [simp]:
  "fl_inst (put_inst i x s) = (fl_inst s)(i := x)" "fl_seat (put_inst i x s) = fl_seat s"
  "fl_file (put_inst i x s) = fl_file s" "live_hub (put_inst i x s) = live_hub s"
  by (simp_all add: put_inst_def live_hub_def)

lemma release_simps [simp]:
  "fl_inst (release_seat i s) = fl_inst s" "live_hub (release_seat i s) = live_hub s"
  "fl_seat (release_seat i s) = (if fl_seat s = Some i then None else fl_seat s)"
  "fl_file (release_seat i s) = fl_file s"
  by (auto simp: release_seat_def live_hub_def)

lemma stop_simps [simp]:
  "fl_inst (stop_listening i s) = fl_inst s" "fl_seat (stop_listening i s) = fl_seat s"
  "live_hub (stop_listening i s) = (if live_hub s = Some i then None else live_hub s)"
  by (auto simp: stop_listening_def live_hub_def split: option.splits)

lemma live_hub_update [simp]:
  "live_hub (s\<lparr>fl_file := f\<rparr>) = (case f of None \<Rightarrow> None | Some (_, owner) \<Rightarrow> owner)"
  "live_hub (s\<lparr>fl_seat := t\<rparr>) = live_hub s"
  by (simp_all add: live_hub_def)

lemma backoffs_start [simp]: "backoff_start \<in> backoffs"
  by (simp add: backoffs_def backoff_start_def)

lemma backoffs_double: "b \<in> backoffs \<Longrightarrow> b < backoff_limit \<Longrightarrow> b * 2 \<in> backoffs"
  by (auto simp: backoffs_def backoff_limit_def)

lemma inv_update:
  assumes "fleet_inv s"
    and "fl_inst s' = (fl_inst s)(i := x)"
    and "in_backoff x \<in> backoffs" "in_abandoned x = 0"
    and "fl_seat s' = (if holds_seat (in_phase x) then Some i else if fl_seat s = Some i then None else fl_seat s)"
    and "holds_seat (in_phase x) \<Longrightarrow> fl_seat s = None \<or> fl_seat s = Some i"
    and "live_hub s' = (if is_hub (in_phase x) then Some i else if live_hub s = Some i then None else live_hub s)"
  shows "fleet_inv s'"
proof -
  note I = fleet_invD [OF assms(1)]
  have other: "live_hub s = Some j \<Longrightarrow> fl_seat s = Some j" for j using I(1,2) is_hub_holds by metis
  have "holds_seat (in_phase (fl_inst s' j)) \<longleftrightarrow> fl_seat s' = Some j" for j
    using I(1) [of j] assms(2,5,6) by auto
  moreover have "is_hub (in_phase (fl_inst s' j)) \<longleftrightarrow> live_hub s' = Some j" for j
    using I(2) [of j] assms(2,6,7) other [of j] is_hub_holds [of "in_phase x"] by auto
  ultimately show ?thesis using I(3,4) assms(2-4) by (simp add: fleet_inv_def)
qed

text \<open>While an instance sits under the seat without being the hub, nobody listens.\<close>

lemma seated_no_hub: "fleet_inv s \<Longrightarrow> in_phase (fl_inst s i) = Seated fd \<Longrightarrow> live_hub s = None"
  by (metis fleet_invD(1,2) is_hub_holds option.exhaust option.inject phase_simps(1,9))

lemma bind_needs_hub:
  "snd (unix_bind_or_connect K path mode) = Inr (Peer k) \<Longrightarrow> \<exists>k. connect_ok K k"
  by (auto simp: unix_bind_or_connect_def bind_listen_def Let_def split: if_splits)

lemma fleet_step_inv: "fleet_step s s' \<Longrightarrow> fleet_inv s \<Longrightarrow> fleet_inv s'"
proof (induction rule: fleet_step.induct)
  case (fleet_probe s i K)
  show ?case
    by (rule inv_update [OF fleet_probe(3), of _ i "probe (snd (unix_try_connect K)) (fl_inst s i)"])
      (use fleet_probe fleet_invD [OF fleet_probe(3), of i] in \<open>auto simp: probe_def split: sum.splits\<close>)
next
  case (fleet_lock s i opened fd rnd)
  show ?case
    by (rule inv_update [OF fleet_lock(4), of _ i "fst (contend (Inr fd) rnd (fl_inst s i))"])
      (use fleet_lock fleet_invD [OF fleet_lock(4), of i] in \<open>auto simp: contend_def\<close>)
next
  case (fleet_retry s i opened flocked e rnd)
  show ?case
    by (rule inv_update [OF fleet_retry(3), of _ i "fst (contend (Inl e) rnd (fl_inst s i))"])
      (use fleet_retry fleet_invD [OF fleet_retry(3), of i] in \<open>auto simp: contend_def backoffs_double\<close>)
next
  case (fleet_bound s i fd K path mode l fid)
  then have "live_hub s = None" by (blast intro: seated_no_hub)
  show ?case
    by (rule inv_update [OF fleet_bound(5), of _ i "fst (take_office (Inr (Hub l)) (fl_inst s i))"])
      (use fleet_bound \<open>live_hub s = None\<close> fleet_invD [OF fleet_bound(5), of i] in \<open>auto simp: take_office_def\<close>)
next
  case (fleet_not_bound s i fd K path mode r f)
  then have no: "live_hub s = None" by (blast intro: seated_no_hub)
  then have f: "(case f of None \<Rightarrow> None | Some (_, owner) \<Rightarrow> owner) = None"
    using fleet_not_bound(5) by (auto simp: live_hub_def)
  have "r \<noteq> Inr (Peer k)" for k
    using bind_needs_hub [of K path mode k] fleet_not_bound(2,3) no by (auto simp: kernel_fits_def)
  then obtain e where r: "r = Inl e" using fleet_not_bound(4) by (metis joined.exhaust sum.exhaust)
  show ?case
    by (rule inv_update [OF fleet_not_bound(6), of _ i "fst (take_office r (fl_inst s i))"])
      (use fleet_not_bound no f r fleet_invD [OF fleet_not_bound(6), of i] in \<open>auto simp: take_office_def\<close>)
next
  case (fleet_hub_lost s i conn)
  show ?case
    by (rule inv_update [OF fleet_hub_lost(2), of _ i "hub_lost (fl_inst s i)"])
      (use fleet_hub_lost fleet_invD [OF fleet_hub_lost(2), of i] in \<open>auto simp: hub_lost_def\<close>)
next
  case (fleet_close s i l f)
  note I = fleet_invD [OF fleet_close(3), of i]
  have "live_hub s = Some i" "fl_seat s = Some i" using I fleet_close(1) by auto
  then have "(case f of None \<Rightarrow> None | Some (_, owner) \<Rightarrow> owner) = None"
    using fleet_close(2) by (auto simp: live_hub_def stop_listening_def split: option.splits)
  with \<open>live_hub s = Some i\<close> \<open>fl_seat s = Some i\<close> I fleet_close(1) show ?case
    by (intro inv_update [OF fleet_close(3), of _ i "(fl_inst s i)\<lparr>in_phase := Closing\<rparr>"]) auto
next
  case (fleet_exit s i)
  note I = fleet_invD [OF fleet_exit(2), of i]
  show ?case
    by (rule inv_update [OF fleet_exit(2), of _ i "(fl_inst s i)\<lparr>in_phase := Exited\<rparr>"]) (use fleet_exit I in auto)
next
  case (fleet_killed s i)
  show ?case
    by (rule inv_update [OF fleet_killed, of _ i "(fl_inst s i)\<lparr>in_phase := Exited\<rparr>"]) (use fleet_invD [OF fleet_killed, of i] in auto)
qed

lemma fleet_initial_inv: "fleet_initial s \<Longrightarrow> fleet_inv s"
  by (simp add: fleet_initial_def fleet_inv_def start_inst_def)

section \<open>The service a fleet provides\<close>

text \<open>
  Abstractly, there is at most one hub: somebody takes the office when it is vacant, or the
  holder leaves it.
\<close>

inductive service_step :: "nat option \<Rightarrow> nat option \<Rightarrow> bool" where
  service_claim: "service_step None (Some i)"
| service_leave: "service_step (Some i) None"

inductive_simps service_simps: "service_step v w"

lemma live_hub_step:
  assumes "fleet_step s s'" "fleet_inv s"
  shows "live_hub s' = live_hub s \<or> service_step (live_hub s) (live_hub s')"
  using assms(1)
proof cases
  case (fleet_bound i fd K path mode l fid)
  then have "live_hub s = None" using assms(2) by (blast intro: seated_no_hub)
  with fleet_bound show ?thesis by (simp add: service_simps)
next
  case (fleet_not_bound i fd K path mode r f)
  then have "live_hub s = None" using assms(2) by (blast intro: seated_no_hub)
  with fleet_not_bound show ?thesis by (auto simp: service_simps live_hub_def)
next
  case (fleet_close i l f)
  then show ?thesis by (cases "live_hub s"; cases "live_hub s'") (auto simp: service_simps live_hub_def stop_listening_def split: option.splits if_splits)
next
  case (fleet_killed i)
  then show ?thesis by (cases "live_hub s") (auto simp: service_simps)
qed auto

interpretation hub_service: simulation fleet_initial fleet_step fleet_inv live_hub service_step
  by unfold_locales (fact fleet_initial_inv fleet_step_inv live_hub_step)+

section \<open>Taking over\<close>

definition refuses :: "kernel \<Rightarrow> bool" where
  "refuses K \<longleftrightarrow> (\<forall>k. \<not> connect_ok K k)"

definition binds :: "kernel \<Rightarrow> bool" where
  "binds K \<longleftrightarrow> refuses K \<and> (\<forall>k. socket_ok K k) \<and> bind_ok K \<and> listen_ok K"

lemma probe_refused: "refuses K \<Longrightarrow> probe (snd (unix_try_connect K)) x = x\<lparr>in_phase := Contend\<rparr>"
  by (simp add: refuses_def unix_try_connect_def probe_def)

lemma bind_succeeds:
  "binds K \<Longrightarrow> \<exists>l. snd (unix_bind_or_connect K path mode) = Inr (Hub l)"
  by (auto simp: binds_def refuses_def unix_bind_or_connect_def bind_listen_def Let_def split: prod.splits)

lemma pass_refused:
  assumes "refuses K1"
  shows "loop_pass K1 K2 path mode False rnd x =
     (x\<lparr>in_phase := Discover, in_backoff := (if in_backoff x < backoff_limit then in_backoff x * 2 else in_backoff x)\<rparr>,
      retry_delay (in_backoff x) rnd)"
  using assms by (simp add: loop_pass_def probe_refused try_lock_def contend_def Let_def)

lemma pass_wins:
  assumes "refuses K1" "binds K2"
  shows "\<exists>l. loop_pass K1 K2 path mode True rnd x = (x\<lparr>in_phase := AsHub l\<rparr>, 0)"
  using assms bind_succeeds [OF assms(2), of path mode]
  by (auto simp: loop_pass_def probe_refused try_lock_def contend_def take_office_def Let_def)

type_synonym attempt = "kernel \<times> kernel \<times> bool \<times> int"

fun passes :: "string \<Rightarrow> u32 \<Rightarrow> attempt list \<Rightarrow> inst \<Rightarrow> inst \<times> int" where
  "passes path mode [] x = (x, 0)"
| "passes path mode ((K1, K2, flocked, rnd) # as) x =
     (let (x, a) = loop_pass K1 K2 path mode flocked rnd x; (x, b) = passes path mode as x in (x, a + b))"

text \<open>A pass while the seat is held elsewhere: the random part of the delay is below half the longest backoff.\<close>

definition losing :: "attempt \<Rightarrow> bool" where
  "losing a \<longleftrightarrow> (case a of (K1, K2, flocked, rnd) \<Rightarrow> refuses K1 \<and> \<not> flocked \<and> 0 \<le> rnd \<and> rnd < 1000000000)"

lemma passes_losing:
  assumes "\<forall>a \<in> set as. losing a" "in_backoff x \<in> backoffs"
  shows "\<exists>x' slept. (\<forall>bs. passes path mode (as @ bs) x = (let (y, b) = passes path mode bs x' in (y, slept + b))) \<and>
     in_backoff x' \<in> backoffs \<and> 250000000 * int (length as) \<le> slept \<and> slept \<le> 3000000000 * int (length as)"
  using assms
proof (induction as arbitrary: x)
  case Nil
  then show ?case by (intro exI [of _ x] exI [of _ 0]) (simp add: case_prod_beta')
next
  case (Cons a as)
  obtain K1 K2 flocked rnd where a: "a = (K1, K2, flocked, rnd)" by (cases a)
  with Cons.prems have l: "refuses K1" "\<not> flocked" "0 \<le> rnd" "rnd < 1000000000" by (auto simp: losing_def)
  define y where "y = x\<lparr>in_phase := Discover, in_backoff := (if in_backoff x < backoff_limit then in_backoff x * 2 else in_backoff x)\<rparr>"
  have p: "loop_pass K1 K2 path mode flocked rnd x = (y, retry_delay (in_backoff x) rnd)"
    using l pass_refused [OF l(1)] by (simp add: y_def)
  have y: "in_backoff y \<in> backoffs" using Cons.prems(2) by (simp add: y_def backoffs_double)
  have d: "250000000 \<le> retry_delay (in_backoff x) rnd" "retry_delay (in_backoff x) rnd \<le> 3000000000"
    using Cons.prems(2) l by (auto simp: backoffs_def retry_delay_def)
  from Cons.IH [OF _ y] Cons.prems(1) obtain x' slept where IH:
      "\<And>bs. passes path mode (as @ bs) y = (let (z, b) = passes path mode bs x' in (z, slept + b))"
      "in_backoff x' \<in> backoffs" "250000000 * int (length as) \<le> slept" "slept \<le> 3000000000 * int (length as)"
    by auto
  show ?case
    using IH d by (intro exI [of _ x'] exI [of _ "retry_delay (in_backoff x) rnd + slept"])
      (auto simp: a p case_prod_beta' Let_def)
qed

section \<open>An example fleet\<close>

definition free_kernel :: kernel where
  "free_kernel = \<lparr>socket_ok = (\<lambda>_. True), connect_ok = (\<lambda>_. False), path_is_socket = False, bind_ok = True,
     listen_ok = True, bound_id = Some (7, 1)\<rparr>"

definition cold_fleet :: fleet where
  "cold_fleet = \<lparr>fl_inst = (\<lambda>_. start_inst), fl_seat = None, fl_file = None\<rparr>"

definition sample_listener :: listener where
  "sample_listener = \<lparr>ln_fd = 2, ln_path = ''/tmp/vde.socket'', ln_ino = 7, ln_dev = 1\<rparr>"

definition hub_fleet :: fleet where
  "hub_fleet = \<lparr>fl_inst = (\<lambda>_. start_inst)(0 := start_inst\<lparr>in_phase := AsHub sample_listener\<rparr>),
     fl_seat = Some 0, fl_file = Some ((7, 1), Some 0)\<rparr>"

lemma cold_fleet_initial: "fleet_initial cold_fleet"
  by (simp add: cold_fleet_def fleet_initial_def live_hub_def)

lemma hub_fleet_reached: "fleet_step\<^sup>*\<^sup>* cold_fleet hub_fleet"
proof -
  define s1 where "s1 = put_inst 0 (start_inst\<lparr>in_phase := Contend\<rparr>) cold_fleet"
  define s2 where "s2 = put_inst 0 (start_inst\<lparr>in_phase := Seated 3\<rparr>) s1\<lparr>fl_seat := Some 0\<rparr>"
  have fits: "kernel_fits free_kernel s" if "fl_file s = None" for s
    using that by (simp add: kernel_fits_def free_kernel_def)
  have "fleet_step cold_fleet (put_inst 0 (probe (snd (unix_try_connect free_kernel)) (fl_inst cold_fleet 0)) cold_fleet)"
    by (intro fleet_probe fits) (simp_all add: cold_fleet_def start_inst_def)
  then have 1: "fleet_step cold_fleet s1"
    by (simp add: s1_def cold_fleet_def unix_try_connect_def free_kernel_def probe_def)
  have "fleet_step s1 (put_inst 0 (fst (contend (Inr 3) 0 (fl_inst s1 0))) s1\<lparr>fl_seat := Some 0\<rparr>)"
    by (rule fleet_lock [where opened = "Some 3"]) (simp_all add: s1_def cold_fleet_def try_lock_def)
  then have 2: "fleet_step s1 s2" by (simp add: s2_def s1_def contend_def)
  have b: "snd (unix_bind_or_connect free_kernel ''/tmp/vde.socket'' 0) = Inr (Hub sample_listener)"
    by (simp add: unix_bind_or_connect_def bind_listen_def free_kernel_def sample_listener_def)
  have "fleet_step s2 (put_inst 0 (fst (take_office (Inr (Hub sample_listener)) (fl_inst s2 0))) s2
      \<lparr>fl_file := Some ((7, 1), Some 0)\<rparr>)"
    by (rule fleet_bound [OF _ fits b, where fd = 3]) (simp_all add: s2_def s1_def cold_fleet_def free_kernel_def)
  moreover have "put_inst 0 (fst (take_office (Inr (Hub sample_listener)) (fl_inst s2 0))) s2
      \<lparr>fl_file := Some ((7, 1), Some 0)\<rparr> = hub_fleet"
    by (simp add: s2_def s1_def cold_fleet_def hub_fleet_def take_office_def put_inst_def)
  ultimately have 3: "fleet_step s2 hub_fleet" by simp
  from 1 2 3 show ?thesis by (meson converse_rtranclp_into_rtranclp rtranclp.rtrancl_refl)
qed

section \<open>Properties\<close>

text \<open>C1: Split-brain is impossible: in every state a fleet of instances can reach, with any
  interleaving of their steps, any failing system call and any instance killed at any time,
  at most one instance is the hub, it holds the seat, the socket file at the path is its own
  and still listened on, so every connect reaches it, and no instance has dropped a
  connection without closing it.\<close>

theorem single_hub:
  assumes "fleet_initial s0" and "fleet_step\<^sup>*\<^sup>* s0 s"
  shows "(\<forall>i j. is_hub (in_phase (fl_inst s i)) \<and> is_hub (in_phase (fl_inst s j)) \<longrightarrow> i = j) \<and>
     (\<forall>i. is_hub (in_phase (fl_inst s i)) \<longleftrightarrow> (\<exists>fid. fl_file s = Some (fid, Some i))) \<and>
     (\<forall>i. is_hub (in_phase (fl_inst s i)) \<longrightarrow> fl_seat s = Some i) \<and>
     (\<forall>i. in_abandoned (fl_inst s i) = 0)"
proof -
  have inv: "fleet_inv s" using assms by (rule hub_service.reached_inv)
  have own: "live_hub s = Some i \<longleftrightarrow> (\<exists>fid. fl_file s = Some (fid, Some i))" for i
    by (auto simp: live_hub_def split: option.splits)
  from fleet_invD [OF inv] own is_hub_holds show ?thesis by (metis option.inject)
qed

lemma single_hub_witness:
  "is_hub (in_phase (fl_inst hub_fleet 0)) \<and> fl_seat hub_fleet = Some 0 \<and> \<not> is_hub (in_phase (fl_inst hub_fleet 1))"
proof -
  have "is_hub (in_phase (fl_inst hub_fleet 0))" by (simp add: hub_fleet_def)
  moreover from this single_hub [OF cold_fleet_initial hub_fleet_reached]
  have "fl_seat hub_fleet = Some 0" "\<not> is_hub (in_phase (fl_inst hub_fleet 1))" by auto
  ultimately show ?thesis by simp
qed

text \<open>C6: A fleet refines the abstract service with at most one office holder: mapped to the
  instance that listens on the socket file, every run of a fleet is a run of the service, so
  that the office is always vacated before another instance takes it, and whoever takes it
  holds the seat.\<close>

theorem fleet_refines_service:
  assumes "fleet_initial s0" and "fleet_step\<^sup>*\<^sup>* s0 s" and "fleet_step s s'"
  shows "service_step\<^sup>*\<^sup>* None (live_hub s) \<and>
     (live_hub s' = live_hub s \<or> service_step (live_hub s) (live_hub s')) \<and>
     (live_hub s = None \<and> live_hub s' = Some i \<longrightarrow> fl_seat s = Some i \<and> fl_seat s' = Some i)"
proof (intro conjI impI)
  have inv0: "fleet_inv s0" using assms(1) by (rule fleet_initial_inv)
  have inv: "fleet_inv s" using assms(1,2) by (rule hub_service.reached_inv)
  then have inv': "fleet_inv s'" using assms(3) fleet_step_inv by blast
  show "service_step\<^sup>*\<^sup>* None (live_hub s)"
    using hub_service.run_abs [OF assms(2) inv0] assms(1) by (simp add: fleet_initial_def)
  show "live_hub s' = live_hub s \<or> service_step (live_hub s) (live_hub s')"
    using assms(3) inv by (rule live_hub_step)
  assume a: "live_hub s = None \<and> live_hub s' = Some i"
  then show "fl_seat s' = Some i" using fleet_invD [OF inv', of i] is_hub_holds by blast
  from assms(3) a show "fl_seat s = Some i"
  proof cases
    case (fleet_bound j fd K path mode l fid)
    with a fleet_invD(1) [OF inv, of j] show ?thesis by simp
  qed (auto simp: live_hub_def stop_listening_def split: if_splits option.splits)
qed

lemma fleet_refines_service_witness:
  "\<exists>s'. fleet_step hub_fleet s' \<and> service_step\<^sup>*\<^sup>* None (Some 0) \<and> live_hub s' = None \<and> service_step (Some 0) None"
proof -
  define s' where "s' = release_seat 0 (stop_listening 0 (put_inst 0 ((fl_inst hub_fleet 0)\<lparr>in_phase := Exited\<rparr>) hub_fleet))"
  have "fleet_step hub_fleet s'" unfolding s'_def by (rule fleet_killed)
  moreover from fleet_refines_service [OF cold_fleet_initial hub_fleet_reached this, of 0]
  have "service_step\<^sup>*\<^sup>* None (Some 0) \<and> (live_hub s' = Some 0 \<or> service_step (Some 0) (live_hub s'))"
    by (simp add: live_hub_def hub_fleet_def)
  moreover have "live_hub s' = None" by (simp add: s'_def live_hub_def hub_fleet_def stop_listening_def put_inst_def release_seat_def)
  ultimately show ?thesis by auto
qed

text \<open>C18: A lost hub is replaced: however often an instance lost the seat before, the first pass of
  its loop that finds the seat free and the socket bindable makes it the hub, and the passes
  before it slept between a quarter of a second and three seconds each.\<close>

theorem takeover_bounded:
  assumes "\<forall>a \<in> set waits. losing a" and "in_backoff x \<in> backoffs"
    and "refuses K1" and "binds K2"
  shows "case passes path mode (waits @ [(K1, K2, True, rnd)]) x of
     (x', slept) \<Rightarrow> is_hub (in_phase x') \<and>
       250000000 * int (length waits) \<le> slept \<and> slept \<le> 3000000000 * int (length waits)"
proof -
  from passes_losing [OF assms(1,2), of path mode] obtain y slept where
    "\<And>bs. passes path mode (waits @ bs) x = (let (z, b) = passes path mode bs y in (z, slept + b))"
    "250000000 * int (length waits) \<le> slept" "slept \<le> 3000000000 * int (length waits)" by blast
  moreover obtain l where "loop_pass K1 K2 path mode True rnd y = (y\<lparr>in_phase := AsHub l\<rparr>, 0)"
    using pass_wins [OF assms(3,4)] by blast
  ultimately show ?thesis by (simp add: Let_def)
qed

lemma takeover_bounded_witness:
  "case passes ''/tmp/vde.socket'' 0 [(free_kernel, free_kernel, False, 100000000), (free_kernel, free_kernel, True, 0)] start_inst of
     (x', slept) \<Rightarrow> is_hub (in_phase x') \<and> 250000000 \<le> slept \<and> slept \<le> 3000000000"
  using takeover_bounded [of "[(free_kernel, free_kernel, False, 100000000)]" start_inst free_kernel free_kernel
      "''/tmp/vde.socket''" 0 0]
  by (simp add: losing_def refuses_def binds_def free_kernel_def start_inst_def del: passes.simps)

end
