(* ===== verification/Peering.thy ===== *)
theory Peering
  imports Uplink Fleet
begin

text \<open>
  What an instance does in its two roles (\<^verbatim>\<open>main.go\<close>): a peer's session with the hub
  and its heartbeat watch, the guest's wire, the hub's accept loop, its readers and its
  heartbeats, and the parts an instance is put together from.
\<close>

section \<open>A peer's session with the hub\<close>

text \<open>
  \<^verbatim>\<open>runPeer\<close>: whether a heartbeat has been seen in this session and when the last one
  came, and the lease table, which belongs to the process and outlives the session.
\<close>

record session =
  ss_saw :: bool
  ss_last :: int
  ss_leases :: "(mac \<times> ip4) list"

definition new_session :: "(mac \<times> ip4) list \<Rightarrow> session" where
  "new_session ls = \<lparr>ss_saw = False, ss_last = 0, ss_leases = ls\<rparr>"

definition beacon_interval :: int where "beacon_interval = 1000000000"
definition beacon_deadline :: int where "beacon_deadline = 3 * beacon_interval"

text \<open>
  One frame from the hub, received at time \<open>now\<close>: the session afterwards and the frame for
  the guest, if it is one. \<open>None\<close> is a panic of the heartbeat parser.
\<close>

definition hub_frame :: "int \<Rightarrow> frame \<Rightarrow> session \<Rightarrow> (session \<times> frame option) option" where
  "hub_frame now f s =
     (if length f < 14 then Some (s, None)
      else do {
        b \<leftarrow> is_beacon f;
        if b then do {
          r \<leftarrow> parse_beacon f;
          let s = s\<lparr>ss_saw := True, ss_last := now\<rparr>;
          Some (case r of Inl _ \<Rightarrow> s | Inr (_, ls) \<Rightarrow> s\<lparr>ss_leases := lease_map ls\<rparr>, None) }
        else Some (s, Some f) })"

text \<open>One tick of the heartbeat watch: does it report the hub silent?\<close>

definition watch_tick :: "int \<Rightarrow> session \<Rightarrow> bool" where
  "watch_tick now s \<longleftrightarrow> ss_saw s \<and> now - ss_last s > beacon_deadline"

text \<open>
  What can happen to a session, in order: a receive on the hub connection, with the result
  of the write to the guest that may follow, and a tick of the watch. The session ends with
  the first of the reasons the two goroutines send.
\<close>

datatype peer_event = HubReceive int "recv_error + frame" "string option" | WatchTick int

datatype end_reason = HubRecvFailed recv_error | GuestSendFailed string | HubSilent

fun run_peer :: "peer_event list \<Rightarrow> session \<Rightarrow> (session \<times> frame list \<times> end_reason option) option" where
  "run_peer [] s = Some (s, [], None)"
| "run_peer (WatchTick now # es) s =
     (if watch_tick now s then Some (s, [], Some HubSilent) else run_peer es s)"
| "run_peer (HubReceive now (Inl e) _ # es) s = Some (s, [], Some (HubRecvFailed e))"
| "run_peer (HubReceive now (Inr f) snd_err # es) s = do {
     (s, out) \<leftarrow> hub_frame now f s;
     case out of
       None \<Rightarrow> run_peer es s
     | Some g \<Rightarrow>
         (case snd_err of
            Some e \<Rightarrow> Some (s, [], Some (GuestSendFailed e))
          | None \<Rightarrow> do { (s, gs, r) \<leftarrow> run_peer es s; Some (s, g # gs, r) }) }"

section \<open>The guest's wire\<close>

text \<open>
  One frame of \<^verbatim>\<open>fleet.wire\<close>. \<open>peer\<close> is the connection frames are routed to, if
  any, as the result of sending on it. The result is the switch, whether the hub got the
  frame, and the frames the switch sends inline.
\<close>

definition wire_frame :: "int \<Rightarrow> int \<Rightarrow> string option option \<Rightarrow> frame \<Rightarrow> switch \<Rightarrow> (switch \<times> bool \<times> sends) option" where
  "wire_frame t1 t2 peer f sw =
     (if length f < 14 then Some (sw, False, [])
      else if peer = Some None then Some (sw, True, [])
      else map_option (\<lambda>(sw, out). (sw, False, out)) (forward t1 t2 local_port f sw))"

section \<open>The hub's side of its peers\<close>

text \<open>
  \<^verbatim>\<open>acceptPeers\<close>: a connection becomes a port, or is closed when all ports are taken.
  The second list of the result are the connections closed.
\<close>

fun accept_peers :: "nat list \<Rightarrow> switch \<Rightarrow> switch \<times> (nat \<times> int) list \<times> nat list" where
  "accept_peers [] sw = (sw, [], [])"
| "accept_peers (conn # conns) sw = (case add_peer conn sw of
      (sw, None) \<Rightarrow> (let (sw, joined, refused) = accept_peers conns sw in (sw, joined, conn # refused))
    | (sw, Some p) \<Rightarrow> (let (sw, joined, refused) = accept_peers conns sw in (sw, (conn, p) # joined, refused)))"

text \<open>
  \<^verbatim>\<open>peerReader\<close>: frames received until the connection breaks, each with the two clock
  readings of its forwarding, then the port is removed.
\<close>

fun peer_frames :: "int \<Rightarrow> (int \<times> int \<times> frame) list \<Rightarrow> switch \<Rightarrow> (switch \<times> sends) option" where
  "peer_frames p [] sw = Some (sw, [])"
| "peer_frames p ((t1, t2, f) # fs) sw =
     (if f = [] then Some (sw, [])
      else if length f < 14 then peer_frames p fs sw
      else do {
        (sw, out) \<leftarrow> forward t1 t2 p f sw;
        (sw, outs) \<leftarrow> peer_frames p fs sw;
        Some (sw, out @ outs) })"

definition peer_reader :: "int \<Rightarrow> (int \<times> int \<times> frame) list \<Rightarrow> switch \<Rightarrow> (switch \<times> sends) option" where
  "peer_reader p fs sw = do {
     (sw, outs) \<leftarrow> peer_frames p fs sw;
     sw \<leftarrow> remove_port p sw;
     Some (sw, outs) }"

text \<open>
  \<^verbatim>\<open>sendBeacons\<close>: one heartbeat per interval into the switch, with the clock readings
  of each; the sequence number wraps.
\<close>

fun send_beacons :: "(int \<times> int \<times> pool option) list \<Rightarrow> u32 \<Rightarrow> switch \<Rightarrow> (switch \<times> sends) option" where
  "send_beacons [] seq sw = Some (sw, [])"
| "send_beacons ((t1, t2, pool) # beats) seq sw = do {
     f \<leftarrow> beacon_frame pool seq;
     (sw, out) \<leftarrow> forward t1 t2 uplink f sw;
     (sw, outs) \<leftarrow> send_beacons beats (seq + 1) sw;
     Some (sw, out @ outs) }"

section \<open>One instance\<close>

text \<open>The uplink the configuration names.\<close>

datatype uplink_kind = NoUplink | TapUplink string | Slirp | Wireguard | UnknownUplink string

definition uplink_kind_of :: "string \<Rightarrow> uplink_kind" where
  "uplink_kind_of u =
     (if u = ''none'' then NoUplink
      else if has_prefix u ''tap'' then
        TapUplink (case cut_prefix u ''tap:'' of
           Some rest \<Rightarrow> if rest \<noteq> '''' then rest else ''tap0''
         | None \<Rightarrow> ''tap0'')
      else if u = ''wireguard'' then Wireguard
      else if u \<noteq> ''slirp'' \<and> u \<noteq> '''' then UnknownUplink u
      else Slirp)"

text \<open>A frame the tap device delivers goes into the switch when it has an Ethernet header.\<close>

definition tap_frame :: "int \<Rightarrow> int \<Rightarrow> frame \<Rightarrow> switch \<Rightarrow> (switch \<times> sends) option" where
  "tap_frame t1 t2 f sw = (if 14 \<le> length f then forward t1 t2 uplink f sw else Some (sw, []))"

text \<open>The switch an instance starts with: its uplink sink and its guest.\<close>

definition instance_switch :: "nat \<Rightarrow> nat \<Rightarrow> switch \<Rightarrow> switch" where
  "instance_switch upl guest sw = add_port local_port guest (add_port uplink upl sw)"

text \<open>The guest that fallback port rules follow: the first client, or the configured start address.\<close>

definition portfwd_fallback :: "config \<Rightarrow> pool option \<Rightarrow> bytes" where
  "portfwd_fallback cfg pool =
     (case Option.bind pool first_lease of
        Some a \<Rightarrow> ip4_bytes a
      | None \<Rightarrow> parse_ip (cf_dhcp_start cfg))"

text \<open>
  \<^verbatim>\<open>waitShutdown\<close>: events until one that ends the instance; the number counts the
  statistics dumps. \<open>None\<close> is still waiting.
\<close>

datatype shutdown_event = GuestGone string | PumpGone string | SigUsr1 | SigTerm

fun wait_shutdown :: "shutdown_event list \<Rightarrow> (nat \<times> shutdown_event) option" where
  "wait_shutdown [] = None"
| "wait_shutdown (SigUsr1 # es) = map_option (\<lambda>(n, e). (Suc n, e)) (wait_shutdown es)"
| "wait_shutdown (e # es) = Some (0, e)"

section \<open>What a session does\<close>

definition is_beat :: "frame \<Rightarrow> bool" where
  "is_beat f \<longleftrightarrow> 14 \<le> length f \<and> is_beacon f = Some True"

fun received :: "peer_event list \<Rightarrow> (int \<times> frame) list" where
  "received [] = []"
| "received (HubReceive now (Inr f) _ # es) = (now, f) # received es"
| "received (_ # es) = received es"

definition guest_frames :: "peer_event list \<Rightarrow> frame list" where
  "guest_frames es = filter (\<lambda>f. 14 \<le> length f \<and> \<not> is_beat f) (map snd (received es))"

definition beats :: "peer_event list \<Rightarrow> (int \<times> frame) list" where
  "beats es = filter (\<lambda>(now, f). is_beat f) (received es)"

definition gossiped :: "frame \<Rightarrow> (mac \<times> ip4) list option" where
  "gossiped f = (case parse_beacon f of Some (Inr (_, ls)) \<Rightarrow> Some (lease_map ls) | _ \<Rightarrow> None)"

text \<open>The session after the heartbeats \<open>bs\<close>.\<close>

definition after_beats :: "(int \<times> frame) list \<Rightarrow> session \<Rightarrow> session" where
  "after_beats bs s = fold (\<lambda>(now, f) s. s\<lparr>ss_saw := True, ss_last := now,
     ss_leases := (case gossiped f of Some ls \<Rightarrow> ls | None \<Rightarrow> ss_leases s)\<rparr>) bs s"

lemma hub_frame_cases:
  "hub_frame now f s = Some (
     if is_beat f then (after_beats [(now, f)] s, None)
     else (s, if 14 \<le> length f then Some f else None))"
proof (cases "14 \<le> length f")
  case True
  obtain b where b: "is_beacon f = Some b" using is_beacon_total by blast
  obtain r where r: "parse_beacon f = Some r" using parse_beacon_total by blast
  have "b \<Longrightarrow> r \<noteq> Inl NotBeacon" using b r by (auto simp: parse_beacon_def Let_def split: if_splits bind_splits)
  with True b r show ?thesis
    by (auto simp: hub_frame_def is_beat_def after_beats_def gossiped_def split: sum.split)
next
  case False
  then show ?thesis by (simp add: hub_frame_def is_beat_def)
qed

lemma received_simps [simp]:
  "guest_frames [] = []" "beats [] = []" "after_beats [] s = s"
  "guest_frames (WatchTick t # es) = guest_frames es" "beats (WatchTick t # es) = beats es"
  "guest_frames (HubReceive t (Inl e) x # es) = guest_frames es" "beats (HubReceive t (Inl e) x # es) = beats es"
  by (simp_all add: guest_frames_def beats_def after_beats_def)

lemma received_frame [simp]:
  "guest_frames (HubReceive t (Inr f) x # es) = (if 14 \<le> length f \<and> \<not> is_beat f then [f] else []) @ guest_frames es"
  "beats (HubReceive t (Inr f) x # es) = (if is_beat f then [(t, f)] else []) @ beats es"
  by (simp_all add: guest_frames_def beats_def)

lemma after_beats_Cons: "after_beats (b # bs) s = after_beats bs (after_beats [b] s)"
  by (simp add: after_beats_def)

lemma run_peer_outcome:
  "\<exists>s' out r. run_peer es s = Some (s', out, r) \<and> (\<exists>rest. guest_frames es = out @ rest) \<and>
     (r = None \<longrightarrow> out = guest_frames es \<and> s' = after_beats (beats es) s)"
proof (induction es arbitrary: s)
  case (Cons e es)
  show ?case
  proof (cases e)
    case (WatchTick t)
    then show ?thesis using Cons.IH [of s] by auto
  next
    case (HubReceive t x snd_err)
    show ?thesis
    proof (cases x)
      case (Inr f)
      consider "is_beat f" | "\<not> is_beat f" "length f < 14" | "\<not> is_beat f" "14 \<le> length f" by linarith
      then show ?thesis
      proof cases
        case 1
        with HubReceive Inr Cons.IH [of "after_beats [(t, f)] s"] show ?thesis
          by (auto simp: hub_frame_cases after_beats_Cons [of "(t, f)" "beats es"])
      next
        case 2
        with HubReceive Inr Cons.IH [of s] show ?thesis by (auto simp: hub_frame_cases)
      next
        case 3
        with HubReceive Inr Cons.IH [of s] show ?thesis
          by (cases snd_err) (auto simp: hub_frame_cases)
      qed
    qed (use HubReceive in auto)
  qed
qed simp

lemma run_peer_append:
  "run_peer es s = Some (s', out, None) \<Longrightarrow>
   run_peer (es @ fs) s = map_option (\<lambda>(t, o2, r). (t, out @ o2, r)) (run_peer fs s')"
proof (induction es arbitrary: s out)
  case (Cons e es)
  show ?case
  proof (cases e)
    case (WatchTick t)
    with Cons show ?thesis by (auto split: if_splits)
  next
    case (HubReceive t x snd_err)
    with Cons show ?thesis
      by (cases x; cases snd_err)
        (auto simp: hub_frame_cases split: if_splits bind_splits option.splits
          intro!: arg_cong2 [where f = map_option])
  qed
qed (simp add: option.map_ident case_prod_beta' prod.case_eq_if)

section \<open>Properties of a session\<close>

text \<open>C20: The guest gets exactly the hub's frames: whatever the hub sends, the session never
  panics, the guest is handed a prefix of the received frames that have an Ethernet header
  and are not heartbeats, in order and unaltered, all of them as long as the session has not
  ended, and the cached lease table is that of the last heartbeat that parsed.\<close>

theorem peer_delivers:
  "\<exists>s' out r. run_peer es s = Some (s', out, r) \<and> (\<exists>rest. guest_frames es = out @ rest) \<and>
     (r = None \<longrightarrow> out = guest_frames es \<and>
        ss_leases s' = (case List.map_filter (\<lambda>(now, f). gossiped f) (beats es) of
            [] \<Rightarrow> ss_leases s | ls \<Rightarrow> last ls))"
proof -
  have leases: "ss_leases (after_beats bs s) =
      (case List.map_filter (\<lambda>(now, f). gossiped f) bs of [] \<Rightarrow> ss_leases s | ls \<Rightarrow> last ls)" for bs
  proof (induction bs rule: rev_induct)
    case (snoc b bs)
    then show ?case
      by (cases b) (auto simp: after_beats_def List.map_filter_def split: list.splits option.splits)
  qed (simp add: List.map_filter_def)
  obtain s' out r where "run_peer es s = Some (s', out, r)" "\<exists>rest. guest_frames es = out @ rest"
      "r = None \<longrightarrow> out = guest_frames es \<and> s' = after_beats (beats es) s"
    using run_peer_outcome by blast
  with leases show ?thesis by auto
qed

definition session_frames :: "peer_event list" where
  "session_frames = [HubReceive 5 (Inr (replicate 14 7)) None,
     HubReceive 1000 (Inr (case encode_beacon vde_mac 1 [\<lparr>l_mac = MAC 2 0 0 0 0 9, l_ip = IP4 10 0 2 15\<rparr>] of
        Some f \<Rightarrow> f | None \<Rightarrow> [])) None]"

lemma session_frames_run: "run_peer session_frames (new_session []) =
    Some (\<lparr>ss_saw = True, ss_last = 1000, ss_leases = [(MAC 2 0 0 0 0 9, IP4 10 0 2 15)]\<rparr>, [replicate 14 7], None)"
  by code_simp

lemma peer_delivers_witness:
  "\<exists>s' out r. run_peer session_frames (new_session []) = Some (s', out, r) \<and> out = guest_frames session_frames"
  using peer_delivers [of session_frames "new_session []"] session_frames_run by auto

text \<open>C21: The heartbeat watch is exact: after any session so far, a tick at time \<open>t\<close> ends it as
  silent precisely when a heartbeat has been seen in this session and the last one is more
  than three seconds old; a hub that never sent one is never given up.\<close>

theorem watch_exact:
  assumes "run_peer es (new_session ls) = Some (s, out, None)"
  shows "run_peer (es @ [WatchTick t]) (new_session ls) = Some (s, out,
     case rev (beats es) of
       [] \<Rightarrow> None
     | (seen, f) # _ \<Rightarrow> if t - seen > 3000000000 then Some HubSilent else None)"
proof -
  from run_peer_outcome [of es "new_session ls"] assms have s: "s = after_beats (beats es) (new_session ls)" by auto
  have "watch_tick t s \<longleftrightarrow> (case rev (beats es) of [] \<Rightarrow> False | (seen, f) # _ \<Rightarrow> t - seen > 3000000000)"
  proof (cases "beats es" rule: rev_cases)
    case Nil
    then show ?thesis by (simp add: s watch_tick_def new_session_def)
  next
    case (snoc bs b)
    then show ?thesis
      by (cases b) (simp add: s watch_tick_def after_beats_def beacon_deadline_def beacon_interval_def)
  qed
  with run_peer_append [OF assms, of "[WatchTick t]"] show ?thesis
    by (auto split: list.splits prod.splits)
qed

lemma watch_exact_witness:
  "run_peer (session_frames @ [WatchTick 3000001001]) (new_session []) =
     Some (\<lparr>ss_saw = True, ss_last = 1000, ss_leases = [(MAC 2 0 0 0 0 9, IP4 10 0 2 15)]\<rparr>, [replicate 14 7], Some HubSilent)"
proof -
  have "rev (beats session_frames) = [(1000, case encode_beacon vde_mac 1 [\<lparr>l_mac = MAC 2 0 0 0 0 9, l_ip = IP4 10 0 2 15\<rparr>] of
        Some f \<Rightarrow> f | None \<Rightarrow> [])]" by code_simp
  with watch_exact [OF session_frames_run, of 3000001001] show ?thesis by simp
qed

text \<open>
  A wedged hub is left, but not for good: its listener still accepts, so the instance joins
  it again, and the new session, whose watch is armed only by a heartbeat, never ends.
\<close>

lemma wedged_hub_rejoined:
  "in_phase (probe (Inr conn) (hub_lost x)) = AsPeer conn \<and>
   run_peer (map WatchTick ts) (new_session ls) = Some (new_session ls, [], None)"
  by (induction ts) (simp_all add: probe_def watch_tick_def new_session_def)

text \<open>Anybody on the switch can send a heartbeat: peers take its lease table without a check of its sender.\<close>

lemma forged_beacon_believed:
  assumes "encode_beacon src seq ls = Some f"
  shows "hub_frame now f s = Some (s\<lparr>ss_saw := True, ss_last := now, ss_leases := lease_map (take max_leases ls)\<rparr>, None)"
proof -
  from encode_beacon_parse [of src seq ls] assms
  have p: "parse_beacon f = Some (Inr (seq, take max_leases ls))" by auto
  note b = parse_beacon_sound(1) [OF p]
  from b is_beacon_length [OF b] have "is_beat f" by (simp add: is_beat_def)
  with p show ?thesis by (simp add: hub_frame_cases after_beats_def gossiped_def)
qed

section \<open>The hub's side\<close>

lemma instance_switch_ports:
  "sw_reachable sw \<Longrightarrow> sw_reachable (instance_switch u g sw)"
  unfolding instance_switch_def by (intro sw_next [OF _ step_add_port] sw_next [OF _ step_add_port]) simp_all

lemma peer_frames_reachable:
  assumes "sw_reachable sw" "\<forall>(t1, t2, f) \<in> set fs. length f \<le> link_frame_max"
  shows "\<exists>sw' outs. peer_frames p fs sw = Some (sw', outs) \<and> sw_reachable sw'"
  using assms
proof (induction fs arbitrary: sw)
  case (Cons x fs)
  obtain t1 t2 f where x: "x = (t1, t2, f)" by (cases x)
  show ?case
  proof (cases "length f < 14")
    case True
    with Cons x show ?thesis by auto
  next
    case False
    from Cons.prems x have len: "length f \<le> link_frame_max" by simp
    obtain sw1 out where fw: "forward t1 t2 p f sw = Some (sw1, out)" using forward_total [OF len] by fastforce
    then have "sw_reachable sw1" using Cons.prems(1) len by (blast intro: sw_next step_forward)
    from Cons.IH [OF this] Cons.prems obtain sw2 outs where "peer_frames p fs sw1 = Some (sw2, outs)" "sw_reachable sw2"
      by auto
    with x False fw show ?thesis by auto
  qed
qed auto

text \<open>C32: A peer leaves no trace: whatever frames of at most the maximal size a peer sends before its
  connection breaks, its reader forwards them without a panic and then removes the port:
  no port of the switch and no learned address has its number any more.\<close>

theorem peer_reader_cleans:
  assumes "sw_reachable sw" and "\<forall>(t1, t2, f) \<in> set fs. length f \<le> link_frame_max"
  shows "\<exists>sw' outs. peer_reader p fs sw = Some (sw', outs) \<and> sw_reachable sw' \<and>
     map_of (ports sw') p = None \<and> (\<forall>m e. macs sw' m = Some e \<longrightarrow> e_port e \<noteq> p)"
proof -
  obtain sw1 outs where 1: "peer_frames p fs sw = Some (sw1, outs)" "sw_reachable sw1"
    using peer_frames_reachable [OF assms] by blast
  have inv: "sw_inv sw1" using 1(2) by (rule sw_reachable_inv)
  then obtain sw2 where 2: "remove_port p sw1 = Some sw2" using remove_port_total by blast
  have "sw_reachable sw2" using 1(2) 2 by (blast intro: sw_next step_remove)
  with 1 2 remove_port_effect(1,2) [OF inv 2] show ?thesis
    by (auto simp: peer_reader_def map_of_eq_None_iff split: option.splits if_splits)
qed

lemma peer_reader_cleans_witness:
  "\<exists>sw' outs. peer_reader 0 [(0, 0, eth bcast guest_a)] hub0 = Some (sw', outs) \<and> map_of (ports sw') 0 = None \<and>
     macs sw' guest_a \<noteq> Some \<lparr>e_port = 0, e_seen = 0\<rparr>"
  using peer_reader_cleans [OF hub0_reachable, of "[(0, 0, eth bcast guest_a)]" 0]
  by (fastforce simp: link_frame_max_def)

section \<open>The fallback guest\<close>

definition keyed :: "pool \<Rightarrow> bool" where
  "keyed p \<longleftrightarrow> map fst (assigned p) = order p"

lemma keyed_lookup: "keyed p \<Longrightarrow> m \<in> set (order p) \<Longrightarrow> \<exists>a. map_of (assigned p) m = Some a"
  by (metis keyed_def list.set_map map_of_eq_None_iff not_None_eq)

lemma order_assign: "\<exists>os. order (fst (get_or_assign hw p)) = order p @ os"
  by (auto simp: get_or_assign_def Let_def split: option.splits)

lemma keyed_assign:
  assumes "keyed p" shows "keyed (fst (get_or_assign hw p))"
proof (cases "mac_of hw \<in> set (map fst (assigned p))")
  case True
  then obtain a where "map_of (assigned p) (mac_of hw) = Some a" by (metis list.set_map map_of_eq_None_iff not_None_eq)
  with assms show ?thesis by (simp add: get_or_assign_def)
next
  case False
  then have "map_of (assigned p) (mac_of hw) = None" by (simp add: map_of_eq_None_iff)
  with assms alist_update_fresh [OF False] show ?thesis
    by (simp add: keyed_def get_or_assign_def Let_def)
qed

lemma keyed_restore: "keyed p \<Longrightarrow> keyed (restore ls p)"
proof -
  have step: "keyed (restore_step ls k q)" if "keyed q" for q k
    using that alist_update_fresh by (fastforce simp: keyed_def restore_step_def map_of_eq_None_iff split: option.splits)
  have "keyed q \<Longrightarrow> keyed (fold (restore_step ls) ks q)" for q ks
    by (induction ks arbitrary: q) (auto intro: step)
  then show "keyed p \<Longrightarrow> keyed (restore ls p)"
    by (simp add: restore_def Let_def keyed_def)
qed

lemma restore_frame: "base (restore ls p) = base p \<and> psize (restore ls p) = psize p"
proof -
  have "base (fold (restore_step ls) ks q) = base q \<and> psize (fold (restore_step ls) ks q) = psize q" for q ks
    by (induction ks arbitrary: q) (auto simp: restore_step_def split: option.splits)
  then show ?thesis by (simp add: restore_def Let_def)
qed

lemma keyed_new: "keyed (new_pool start n)"
  by (simp add: keyed_def new_pool_def)

lemma usable_leases_nonneg: "usable_leases network start 256 = Some n \<Longrightarrow> 0 \<le> n"
  by (auto simp: usable_leases_def Let_def split: option.splits bind_splits if_splits)

lemma first_lease_keeps:
  assumes "keyed p" "first_lease p = Some a"
  shows "first_lease (fst (get_or_assign hw p)) = Some a"
proof -
  obtain m ms where o: "order p = m # ms" using assms(2) by (auto simp: first_lease_def split: list.splits)
  then have "map_of (assigned p) m = Some a"
    using assms(2) keyed_lookup [OF assms(1), of m] by (auto simp: first_lease_def)
  from get_or_assign_keeps [OF this, of hw] o order_assign [of hw p] show ?thesis
    by (auto simp: first_lease_def)
qed

lemma first_lease_serve:
  "keyed p \<Longrightarrow> first_lease p = Some a \<Longrightarrow> first_lease (serve hws p) = Some a"
  by (induction hws arbitrary: p) (auto simp: first_lease_keeps keyed_assign)

lemma first_lease_fresh:
  "order p = [] \<Longrightarrow> assigned p = [] \<Longrightarrow> pnext p = 0 \<Longrightarrow> 0 < psize p \<Longrightarrow>
   first_lease (fst (get_or_assign hw p)) = Some (base p) \<and> keyed (fst (get_or_assign hw p))"
  by (simp add: get_or_assign_def first_lease_def keyed_def lease_addr_def Let_def)

text \<open>Port rules without a guest of their own follow the first client: the address the hub
  resolves them to when it starts, before any client has asked, is the one its pool has
  assigned to its first client ever after, whether the pool is fresh or was inherited.\<close>

theorem fallback_is_first_client:
  assumes "hub_pool cfg seed = Some (Some p)" and "hws \<noteq> []"
  shows "first_lease (serve hws p) = to4 (portfwd_fallback cfg (Some p))"
proof -
  let ?start = "parse_ip (cf_dhcp_start cfg)"
  from assms(1) obtain n where n: "usable_leases (cf_network cfg) ?start 256 = Some n" "n \<noteq> 0"
    and p: "p = (if seed \<noteq> [] then restore seed (new_pool ?start n) else new_pool ?start n)"
    by (auto simp: hub_pool_def Let_def split: if_splits option.splits)
  have known: "keyed p" by (simp add: p keyed_restore keyed_new)
  show ?thesis
  proof (cases "first_lease p")
    case (Some a)
    then show ?thesis using first_lease_serve [OF known Some] by (simp add: portfwd_fallback_def)
  next
    case None
    obtain a where a: "to4 ?start = Some a" using n by (auto simp: usable_leases_def split: option.splits)
    have fresh: "order p = []" using None by (simp add: first_lease_def split: list.splits)
    with known have "assigned p = []" by (simp add: keyed_def)
    moreover have "pnext p = 0" using calculation by (auto simp: p new_pool_def restore_def Let_def)
    moreover have "base p = a" "psize p = n"
      using a by (auto simp: p new_pool_def restore_frame)
    moreover have "0 < n" using usable_leases_nonneg [OF n(1)] n(2) by simp
    ultimately have "first_lease (fst (get_or_assign (hd hws) p)) = Some a \<and> keyed (fst (get_or_assign (hd hws) p))"
      using first_lease_fresh [OF fresh] by simp
    then have "first_lease (serve (tl hws) (fst (get_or_assign (hd hws) p))) = Some a"
      using first_lease_serve by blast
    then have "first_lease (serve hws p) = Some a" using assms(2) by (cases hws) simp_all
    with None a show ?thesis by (simp add: portfwd_fallback_def)
  qed
qed

lemma fallback_is_first_client_witness:
  "\<exists>p. hub_pool defaults [] = Some (Some p) \<and>
     first_lease (serve [[2, 0, 0, 0, 0, 9]] p) = to4 (portfwd_fallback defaults (Some p))"
proof -
  have "case hub_pool defaults [] of Some (Some p) \<Rightarrow> True | _ \<Rightarrow> False" by code_simp
  then obtain p where p: "hub_pool defaults [] = Some (Some p)" by (auto split: option.splits)
  from fallback_is_first_client [OF p, of "[[2, 0, 0, 0, 0, 9]]"] p show ?thesis by blast
qed

end
