(* ===== verification/NatStack.thy ===== *)
theory NatStack
  imports Portfwd
begin

text \<open>
  The NAT of \<^verbatim>\<open>internal/nat/nat.go\<close>: how the stack is set up from the options, which
  connection a forwarder opens for a guest's flow, and the relay of datagrams. gVisor's
  subnets and addresses are the fields of \<open>net_ops\<close>, under the hypotheses of \<open>net_ok\<close>;
  the answers of the stack and of the host's dials are arguments.
\<close>

section \<open>Addresses and subnets\<close>

text \<open>\<^verbatim>\<open>as16\<close>: \<^verbatim>\<open>To16\<close> copied into an array, zeros for what is not an address.\<close>

definition as16 :: "bytes \<Rightarrow> bytes" where
  "as16 ip = (if length ip = 4 then v4_prefix @ ip else if length ip = 16 then ip else replicate 16 0)"

text \<open>
  gVisor's subnets and addresses: building a subnet from address and mask (refused for bits
  outside the mask), from an address and a prefix length, membership, an address as text,
  and the 4-byte form of an address, empty when it has none.
\<close>

record 'sub net_ops =
  new_subnet :: "bytes \<Rightarrow> bytes \<Rightarrow> 'sub option"
  prefix_subnet :: "bytes \<Rightarrow> nat \<Rightarrow> 'sub"
  contains :: "'sub \<Rightarrow> bytes \<Rightarrow> bool"
  addr_string :: "bytes \<Rightarrow> string"
  addr_to4 :: "bytes \<Rightarrow> bytes"

text \<open>What their documentation says, as far as the NAT relies on it.\<close>

definition net_ok :: "'sub net_ops \<Rightarrow> bool" where
  "net_ok P \<longleftrightarrow>
     (\<forall>a. addr_string P (ip4_bytes a) = ip4_string a) \<and>
     (\<forall>a. addr_to4 P (v4_prefix @ ip4_bytes a) = ip4_bytes a) \<and>
     (\<forall>a b n. n \<le> 32 \<longrightarrow> contains P (prefix_subnet P (ip4_bytes a) n) (ip4_bytes b) =
        (drop_bit (32 - n) (ip4_u32 a) = drop_bit (32 - n) (ip4_u32 b))) \<and>
     (\<forall>a m. length a \<noteq> length m \<longrightarrow> new_subnet P a m = None)"

section \<open>State\<close>

definition nic_id :: nat where "nic_id = 1"

record nat_options =
  no_gateway :: string
  no_nameserver :: string
  no_network :: string
  no_ipv6 :: bool
  no_mtu :: int

record 'sub route =
  rt_dest :: 'sub
  rt_nic :: nat

record 'sub nat_state =
  n_resolvers :: "string list"
  n_local :: "string \<Rightarrow> bool"
  n_dns :: "string \<Rightarrow> bool"
  n_tunnel :: "'sub list"
  n_routes :: "'sub route list"

definition add_route :: "'sub route \<Rightarrow> 'sub nat_state \<Rightarrow> 'sub nat_state" where
  "add_route r n = n\<lparr>n_routes := n_routes n @ [r]\<rparr>"

definition set_tunnel_subnets :: "'sub list \<Rightarrow> 'sub nat_state \<Rightarrow> 'sub nat_state" where
  "set_tunnel_subnets subs n = n\<lparr>n_tunnel := subs\<rparr>"

definition dials_tunnel :: "'sub net_ops \<Rightarrow> 'sub nat_state \<Rightarrow> bytes \<Rightarrow> bool" where
  "dials_tunnel P n dst \<longleftrightarrow> (\<exists>s \<in> set (n_tunnel n). contains P s dst)"

section \<open>Building the NAT\<close>

text \<open>\<^verbatim>\<open>/etc/resolv.conf\<close>: lines of exactly the word nameserver and an address.\<close>

definition resolver_line :: "string \<Rightarrow> string option" where
  "resolver_line line = (case str_fields line of
       [k, server] \<Rightarrow> if k = ''nameserver'' then Some server else None
     | _ \<Rightarrow> None)"

definition resolvers :: "string option \<Rightarrow> string list" where
  "resolvers data = (case data of
       None \<Rightarrow> []
     | Some text \<Rightarrow> List.map_filter resolver_line (split_on (char_of (10 :: nat)) text))"

datatype nat_error = NatNic | NatAddress string | NatAdd string | NatNetwork string | NatNotV4 string | NatSubnet string

definition nat_subnet :: "'sub net_ops \<Rightarrow> string \<Rightarrow> nat_error + 'sub" where
  "nat_subnet P cidr = (case parse_cidr cidr of
       None \<Rightarrow> Inl (NatNetwork cidr)
     | Some net \<Rightarrow>
         (case to4 (net_ip net) of
            None \<Rightarrow> Inl (NatNotV4 cidr)
          | Some a \<Rightarrow>
              (case new_subnet P (ip4_bytes a) (net_mask net) of
                 None \<Rightarrow> Inl (NatSubnet cidr)
               | Some s \<Rightarrow> Inr s)))"

definition mark :: "string \<Rightarrow> (string \<Rightarrow> bool) \<Rightarrow> string \<Rightarrow> bool" where
  "mark a f = f(a := True)"

text \<open>
  The loop over the gateway and the name server: each becomes an address of the stack,
  \<open>assign\<close> is its answer.
\<close>

fun add_own :: "(bytes \<Rightarrow> bool) \<Rightarrow> nat_options \<Rightarrow> string list \<Rightarrow> 'sub nat_state \<Rightarrow> nat_error + 'sub nat_state" where
  "add_own assign opts [] n = Inr n"
| "add_own assign opts (addr # addrs) n = (case to4 (parse_ip addr) of
      None \<Rightarrow> Inl (NatAddress addr)
    | Some a \<Rightarrow>
        if \<not> assign (ip4_bytes a) then Inl (NatAdd addr)
        else add_own assign opts addrs
          (n\<lparr>n_local := mark addr (n_local n),
             n_dns := (if addr = no_nameserver opts then mark addr (n_dns n) else n_dns n)\<rparr>))"

text \<open>The IPv6 addresses of the gateway and the name server.\<close>

fun add_own6 :: "(bytes \<Rightarrow> bool) \<Rightarrow> string list \<Rightarrow> 'sub nat_state \<Rightarrow> nat_error + 'sub nat_state" where
  "add_own6 assign [] n = Inr n"
| "add_own6 assign (a # as) n =
     (if \<not> assign (as16 (parse_ip a)) then Inl (NatAdd a)
      else add_own6 assign as
        (n\<lparr>n_local := mark a (n_local n), n_dns := (if a = ''fec0::3'' then mark a (n_dns n) else n_dns n)\<rparr>))"

definition empty_nat :: "string option \<Rightarrow> 'sub nat_state" where
  "empty_nat resolv = \<lparr>n_resolvers = resolvers resolv, n_local = (\<lambda>_. False), n_dns = (\<lambda>_. False),
     n_tunnel = [], n_routes = []\<rparr>"

definition new_nat :: "'sub net_ops \<Rightarrow> bool \<Rightarrow> (bytes \<Rightarrow> bool) \<Rightarrow> string option \<Rightarrow> nat_options
    \<Rightarrow> nat_error + 'sub nat_state" where
  "new_nat P nic assign resolv opts =
     (if \<not> nic then Inl NatNic
      else (case add_own assign opts [no_gateway opts, no_nameserver opts] (empty_nat resolv) of
          Inl e \<Rightarrow> Inl e
        | Inr n \<Rightarrow>
            (case nat_subnet P (no_network opts) of
               Inl e \<Rightarrow> Inl e
             | Inr sub \<Rightarrow>
                 let v4 = \<lparr>rt_dest = sub, rt_nic = nic_id\<rparr> in
                 if no_ipv6 opts then
                   (case add_own6 assign [''fec0::2'', ''fec0::3''] n of
                      Inl e \<Rightarrow> Inl e
                    | Inr n \<Rightarrow> Inr (n\<lparr>n_routes :=
                        [v4, \<lparr>rt_dest = prefix_subnet P (as16 (parse_ip ''fec0::'')) 64, rt_nic = nic_id\<rparr>]\<rparr>))
                 else Inr (n\<lparr>n_routes := [v4]\<rparr>))))"

section \<open>Where a flow goes\<close>

text \<open>
  The connection a forwarder opens for a guest's flow: a host socket to a textual address,
  or a connection through this stack, which leaves by the tunnel.
\<close>

datatype dial = HostDial string | TunnelDial bytes u16 bool

text \<open>\<^verbatim>\<open>tcpHandler\<close>: the switch over the destination. The last argument of a tunnel dial says IPv6.\<close>

definition tcp_dial :: "'sub net_ops \<Rightarrow> 'sub nat_state \<Rightarrow> bytes \<Rightarrow> u16 \<Rightarrow> dial" where
  "tcp_dial P n dst port = (
     let s = addr_string P dst; p = dec (unat port) in
     if n_local n s then HostDial (join_host_port ''127.0.0.1'' p)
     else if dials_tunnel P n dst then TunnelDial dst port (length dst = 16)
     else HostDial (join_host_port s p))"

text \<open>
  What becomes of the guest's connection, by whether the dial and the creation of the
  guest's endpoint succeed.
\<close>

datatype tcp_outcome = TcpReset | TcpHostClosed | TcpPumping

definition tcp_handler :: "(dial \<Rightarrow> bool) \<Rightarrow> bool \<Rightarrow> dial \<Rightarrow> tcp_outcome" where
  "tcp_handler dial_ok endpoint_ok d =
     (if \<not> dial_ok d then TcpReset else if \<not> endpoint_ok then TcpHostClosed else TcpPumping)"

text \<open>\<^verbatim>\<open>dialUDP\<close>, with \<open>dial_ok\<close> the answers of the dials; \<open>None\<close> is no connection.\<close>

definition udp_target :: "'sub net_ops \<Rightarrow> 'sub nat_state \<Rightarrow> string \<Rightarrow> u16 \<Rightarrow> dial" where
  "udp_target P n dstIP0 port = (
     let dstIP = (if n_local n dstIP0 then ''127.0.0.1'' else dstIP0);
         dst = as16 (parse_ip dstIP);
         t4 = addr_to4 P dst;
         dst = (if length t4 = 4 then t4 else dst) in
     if dials_tunnel P n dst then TunnelDial dst port (length dst \<noteq> 4)
     else HostDial (join_host_port dstIP (dec (unat port))))"

definition dial_udp :: "'sub net_ops \<Rightarrow> (dial \<Rightarrow> bool) \<Rightarrow> 'sub nat_state \<Rightarrow> string \<Rightarrow> u16 \<Rightarrow> dial option" where
  "dial_udp P dial_ok n dstIP port =
     (if port = 53 \<and> n_dns n dstIP
      then find dial_ok (map (\<lambda>server. HostDial (join_host_port server ''53'')) (n_resolvers n))
      else let d = udp_target P n dstIP port in if dial_ok d then Some d else None)"

text \<open>
  \<^verbatim>\<open>udpHandler\<close>: nothing is opened without a connection, and the connection is closed
  again when the guest's endpoint cannot be created.
\<close>

datatype udp_outcome = UdpUnreachable | UdpHostClosed dial | UdpRelaying dial

definition udp_handler :: "'sub net_ops \<Rightarrow> (dial \<Rightarrow> bool) \<Rightarrow> bool \<Rightarrow> 'sub nat_state \<Rightarrow> bytes \<Rightarrow> u16 \<Rightarrow> udp_outcome" where
  "udp_handler P dial_ok endpoint_ok n dst port = (case dial_udp P dial_ok n (addr_string P dst) port of
       None \<Rightarrow> UdpUnreachable
     | Some d \<Rightarrow> if endpoint_ok then UdpRelaying d else UdpHostClosed d)"

section \<open>Relaying datagrams\<close>

text \<open>
  One round of \<^verbatim>\<open>relayUDP\<close>: the guest's datagram within 30 s, whether the write to the
  host works, the host's datagram within 5 s, and whether the write to the guest works.
\<close>

record udp_round =
  ur_guest :: "bytes option"
  ur_host_ok :: bool
  ur_reply :: "bytes option"
  ur_guest_ok :: bool

text \<open>The datagrams sent to the host, those sent to the guest, and whether both sockets were closed.\<close>

fun relay_udp :: "udp_round list \<Rightarrow> bytes list \<times> bytes list \<times> bool" where
  "relay_udp [] = ([], [], False)"
| "relay_udp (r # rs) = (case ur_guest r of
      None \<Rightarrow> ([], [], True)
    | Some d \<Rightarrow>
        if \<not> ur_host_ok r then ([], [], True)
        else (case ur_reply r of
            None \<Rightarrow> ([d], [], True)
          | Some a \<Rightarrow>
              if \<not> ur_guest_ok r then ([d], [], True)
              else (let (hs, gs, c) = relay_udp rs in (d # hs, a # gs, c))))"

section \<open>An instance of the address operations\<close>

definition demo_contains :: "bytes \<times> nat \<Rightarrow> bytes \<Rightarrow> bool" where
  "demo_contains s b = (case s of (a, n) \<Rightarrow> length a = length b \<and>
     (case (be32 a, be32 b) of
        (Some x, Some y) \<Rightarrow> drop_bit (32 - n) x = drop_bit (32 - n) y
      | _ \<Rightarrow> map2 (AND) a (mask_bytes (length a) n) = map2 (AND) b (mask_bytes (length a) n)))"

definition demo_net :: "(bytes \<times> nat) net_ops" where
  "demo_net = \<lparr>new_subnet = (\<lambda>a m. if length a \<noteq> length m then None
       else Some (a, 8 * length (takeWhile (\<lambda>b. b = 0xff) m))),
     prefix_subnet = Pair,
     contains = demo_contains,
     addr_string = (\<lambda>a. if length a = 4 then ip4_string (ip4_of a) else hw_string a),
     addr_to4 = (\<lambda>a. if length a = 4 then a else if take 12 a = v4_prefix then drop 12 a else [])\<rparr>"

lemma demo_net_ok: "net_ok demo_net"
  by (simp add: net_ok_def demo_net_def demo_contains_def)

section \<open>What a built NAT looks like\<close>

lemma net_okD:
  assumes "net_ok P"
  shows "addr_string P (ip4_bytes a) = ip4_string a"
    and "addr_to4 P (v4_prefix @ ip4_bytes a) = ip4_bytes a"
    and "n \<le> 32 \<Longrightarrow> contains P (prefix_subnet P (ip4_bytes a) n) (ip4_bytes b) =
        (drop_bit (32 - n) (ip4_u32 a) = drop_bit (32 - n) (ip4_u32 b))"
    and "length a' \<noteq> length m \<Longrightarrow> new_subnet P a' m = None"
  using assms by (simp_all add: net_ok_def)

lemma add_own_Inr:
  "add_own assign opts addrs n = Inr n' \<Longrightarrow>
   n_local n' = (\<lambda>a. n_local n a \<or> a \<in> set addrs) \<and>
   n_dns n' = (\<lambda>a. n_dns n a \<or> a \<in> set addrs \<and> a = no_nameserver opts) \<and>
   n_tunnel n' = n_tunnel n \<and> n_resolvers n' = n_resolvers n \<and>
   (\<forall>a \<in> set addrs. to4 (parse_ip a) \<noteq> None)"
  by (induction addrs arbitrary: n) (auto simp: mark_def fun_eq_iff split: option.splits if_splits)

lemma add_own6_Inr:
  "add_own6 assign as n = Inr n' \<Longrightarrow>
   n_local n' = (\<lambda>a. n_local n a \<or> a \<in> set as) \<and>
   n_dns n' = (\<lambda>a. n_dns n a \<or> a \<in> set as \<and> a = ''fec0::3'') \<and>
   n_tunnel n' = n_tunnel n \<and> n_resolvers n' = n_resolvers n"
  by (induction as arbitrary: n) (auto simp: mark_def fun_eq_iff split: if_splits)

lemma new_nat_Inr:
  assumes "new_nat P nic assign resolv opts = Inr n"
  shows "n_local n = (\<lambda>a. a = no_gateway opts \<or> a = no_nameserver opts \<or>
       no_ipv6 opts \<and> (a = ''fec0::2'' \<or> a = ''fec0::3''))"
    and "n_dns n = (\<lambda>a. a = no_nameserver opts \<or> no_ipv6 opts \<and> a = ''fec0::3'')"
    and "n_tunnel n = []" and "n_resolvers n = resolvers resolv"
    and "to4 (parse_ip (no_gateway opts)) \<noteq> None" "to4 (parse_ip (no_nameserver opts)) \<noteq> None"
    and "\<exists>net a. parse_cidr (no_network opts) = Some net \<and> to4 (net_ip net) = Some a"
proof -
  from assms obtain n0 sub where n0: "add_own assign opts [no_gateway opts, no_nameserver opts] (empty_nat resolv) = Inr n0"
    and sub: "nat_subnet P (no_network opts) = Inr sub"
    and n: "if no_ipv6 opts then (\<exists>n1 rs. add_own6 assign [''fec0::2'', ''fec0::3''] n0 = Inr n1 \<and> n = n1\<lparr>n_routes := rs\<rparr>)
      else (\<exists>rs. n = n0\<lparr>n_routes := rs\<rparr>)"
    by (auto simp: new_nat_def Let_def simp del: add_own.simps add_own6.simps split: if_splits sum.splits)
  note o = add_own_Inr [OF n0]
  show "to4 (parse_ip (no_gateway opts)) \<noteq> None" "to4 (parse_ip (no_nameserver opts)) \<noteq> None" using o by auto
  show "\<exists>net a. parse_cidr (no_network opts) = Some net \<and> to4 (net_ip net) = Some a"
    using sub by (auto simp: nat_subnet_def split: option.splits)
  have e: "n_local (empty_nat resolv) = (\<lambda>_. False)" "n_dns (empty_nat resolv) = (\<lambda>_. False)"
      "n_tunnel (empty_nat resolv) = []" "n_resolvers (empty_nat resolv) = resolvers resolv"
    by (simp_all add: empty_nat_def)
  have "n_local n = (\<lambda>a. a = no_gateway opts \<or> a = no_nameserver opts \<or>
       no_ipv6 opts \<and> (a = ''fec0::2'' \<or> a = ''fec0::3'')) \<and>
    n_dns n = (\<lambda>a. a = no_nameserver opts \<or> no_ipv6 opts \<and> a = ''fec0::3'') \<and>
    n_tunnel n = [] \<and> n_resolvers n = resolvers resolv"
  proof (cases "no_ipv6 opts")
    case True
    with n obtain n1 rs where n1: "add_own6 assign [''fec0::2'', ''fec0::3''] n0 = Inr n1" "n = n1\<lparr>n_routes := rs\<rparr>"
      by auto
    from add_own6_Inr [OF n1(1)] o n1(2) True show ?thesis by (simp add: e) blast
  next
    case False
    with n obtain rs where "n = n0\<lparr>n_routes := rs\<rparr>" by auto
    with o False show ?thesis by (simp add: e) blast
  qed
  then show "n_local n = (\<lambda>a. a = no_gateway opts \<or> a = no_nameserver opts \<or>
       no_ipv6 opts \<and> (a = ''fec0::2'' \<or> a = ''fec0::3''))"
    "n_dns n = (\<lambda>a. a = no_nameserver opts \<or> no_ipv6 opts \<and> a = ''fec0::3'')"
    "n_tunnel n = []" "n_resolvers n = resolvers resolv" by blast+
qed

lemma ip4_string_inject [simp]: "ip4_string a = ip4_string b \<longleftrightarrow> a = b"
  by (metis parse_ipv4_string option.inject ip4_of_bytes)

lemma ip4_string_no_colon: "CHR '':'' \<in> set s \<Longrightarrow> ip4_string a \<noteq> s"
  by (metis ip4_string_plain(4))

lemma join_ip4 [simp]: "join_host_port (ip4_string a) p = ip4_string a @ '':'' @ p"
  by (simp add: join_host_port_def)

definition loopback :: ip4 where "loopback = IP4 127 0 0 1"

lemma loopback_string: "''127.0.0.1'' = ip4_string loopback"
  by code_simp

definition covered :: "'sub net_ops \<Rightarrow> 'sub list \<Rightarrow> ip4 \<Rightarrow> bool" where
  "covered P subs a \<longleftrightarrow> (\<exists>s \<in> set subs. contains P s (ip4_bytes a))"

definition host_dial :: "ip4 \<Rightarrow> u16 \<Rightarrow> dial" where
  "host_dial a port = HostDial (ip4_string a @ '':'' @ dec (unat port))"

lemma own_addresses:
  assumes "new_nat P nic assign resolv opts = Inr n"
    and "no_gateway opts = ip4_string gw" and "no_nameserver opts = ip4_string ns"
  shows "n_local n (ip4_string a) \<longleftrightarrow> a = gw \<or> a = ns" and "n_dns n (ip4_string a) \<longleftrightarrow> a = ns"
proof -
  note N = new_nat_Inr(1,2) [OF assms(1)]
  have "ip4_string a \<noteq> ''fec0::2''" "ip4_string a \<noteq> ''fec0::3''" by (intro ip4_string_no_colon; simp)+
  with assms(2,3) show "n_local n (ip4_string a) \<longleftrightarrow> a = gw \<or> a = ns" "n_dns n (ip4_string a) \<longleftrightarrow> a = ns"
    by (simp_all add: N)
qed

lemma tcp_dial_v4:
  assumes "net_ok P"
  shows "tcp_dial P n (ip4_bytes a) port =
     (if n_local n (ip4_string a) then host_dial loopback port
      else if covered P (n_tunnel n) a then TunnelDial (ip4_bytes a) port False
      else host_dial a port)"
  using net_okD(1) [OF assms, of a]
  by (simp add: tcp_dial_def Let_def loopback_string host_dial_def dials_tunnel_def covered_def)

lemma udp_target_v4:
  assumes "net_ok P"
  shows "udp_target P n (ip4_string a) port =
     (let b = (if n_local n (ip4_string a) then loopback else a) in
      if covered P (n_tunnel n) b then TunnelDial (ip4_bytes b) port False else host_dial b port)"
proof -
  have "as16 (v4_prefix @ ip4_bytes b) = v4_prefix @ ip4_bytes b" for b by (simp add: as16_def)
  then show ?thesis using net_okD(2) [OF assms]
    by (simp add: udp_target_def Let_def loopback_string host_dial_def dials_tunnel_def covered_def)
qed

section \<open>Properties\<close>


definition sample_options :: nat_options where
  "sample_options = \<lparr>no_gateway = ''10.0.2.2'', no_nameserver = ''10.0.2.3'', no_network = ''10.0.2.0/24'',
     no_ipv6 = False, no_mtu = 0\<rparr>"

definition sample_nat :: "(bytes \<times> nat) nat_state" where
  "sample_nat = (case new_nat demo_net True (\<lambda>_. True) (Some ''nameserver 9.9.9.9'') sample_options of
     Inr n \<Rightarrow> n | Inl _ \<Rightarrow> empty_nat None)"

lemma sample_nat_built: "new_nat demo_net True (\<lambda>_. True) (Some ''nameserver 9.9.9.9'') sample_options = Inr sample_nat"
proof -
  have "case new_nat demo_net True (\<lambda>_. True) (Some ''nameserver 9.9.9.9'') sample_options of Inr n \<Rightarrow> True | Inl _ \<Rightarrow> False"
    by code_simp
  then show ?thesis by (simp add: sample_nat_def split: sum.splits)
qed

lemma sample_addresses:
  "no_gateway sample_options = ip4_string (IP4 10 0 2 2)" "no_nameserver sample_options = ip4_string (IP4 10 0 2 3)"
  by (simp add: sample_options_def, code_simp)+


text \<open>A tunnel for all addresses takes the host's loopback services away from UDP but not from
  TCP: with 0.0.0.0/0 covered, TCP to the gateway is dialled on host loopback, and UDP to the
  gateway is sent into the tunnel for 127.0.0.1.\<close>

theorem full_tunnel_loopback_udp:
  assumes "net_ok P" and "new_nat P nic assign resolv opts = Inr n0"
    and "no_gateway opts = ip4_string gw" and "no_nameserver opts = ip4_string ns"
    and "n = set_tunnel_subnets [prefix_subnet P (ip4_bytes (IP4 0 0 0 0)) 0] n0" and "gw \<noteq> ns" and "ok (TunnelDial (ip4_bytes loopback) port False)"
  shows "tcp_dial P n (ip4_bytes gw) port = host_dial loopback port \<and>
     dial_udp P ok n (ip4_string gw) port = Some (TunnelDial (ip4_bytes loopback) port False)"
proof -
  have n: "n_local n = n_local n0" "n_dns n = n_dns n0" "n_tunnel n = [prefix_subnet P (ip4_bytes (IP4 0 0 0 0)) 0]"
    by (simp_all add: assms(5) set_tunnel_subnets_def)
  have z: "drop_bit 32 (w :: u32) = 0" for w by (rule drop_bit_word_beyond) simp
  have c: "covered P (n_tunnel n) loopback"
    using net_okD(3) [OF assms(1), of 0 "IP4 0 0 0 0" loopback] by (simp add: covered_def n z del: ip4_bytes.simps)
  show ?thesis using own_addresses [OF assms(2-4), of gw] assms(6,7) c
    by (simp add: tcp_dial_v4 [OF assms(1)] dial_udp_def udp_target_v4 [OF assms(1)] n(1,2) Let_def)
qed

lemma full_tunnel_loopback_udp_witness:
  "dial_udp demo_net (\<lambda>_. True) (set_tunnel_subnets [prefix_subnet demo_net (ip4_bytes (IP4 0 0 0 0)) 0] sample_nat)
     (ip4_string (IP4 10 0 2 2)) 2049 = Some (TunnelDial (ip4_bytes loopback) 2049 False)"
  using full_tunnel_loopback_udp [OF demo_net_ok sample_nat_built sample_addresses refl, of "\<lambda>_. True" 2049] by simp

lemma relay_udp_spec:
  "relay_udp rs = (hs, gs, ended) \<Longrightarrow>
     (\<exists>rest. List.map_filter ur_guest rs = hs @ rest) \<and> (\<exists>rest. List.map_filter ur_reply rs = gs @ rest) \<and>
     (if ended then length hs = length gs \<or> length hs = length gs + 1 else length hs = length rs \<and> length gs = length rs) \<and>
     (ended \<longleftrightarrow> (\<exists>r \<in> set rs. ur_guest r = None \<or> \<not> ur_host_ok r \<or> ur_reply r = None \<or> \<not> ur_guest_ok r))"
proof (induction rs arbitrary: hs gs ended)
  case (Cons r rs)
  obtain hs' gs' e' where r: "relay_udp rs = (hs', gs', e')" by (cases "relay_udp rs")
  from Cons.IH [OF r] Cons.prems r show ?case
    by (auto simp: List.map_filter_def split: option.splits if_splits)
qed simp

text \<open>C33: The datagram relay runs in lockstep: it sends the guest's datagrams to the host in order,
  one per round, and after each waits for one answer, so that the guest has got an answer to
  every datagram but possibly the last, and an unanswered one ends the flow and closes both
  sockets, however busy the guest is.\<close>

theorem udp_relay_lockstep:
  "case relay_udp rs of (hs, gs, ended) \<Rightarrow>
     (\<exists>rest. List.map_filter ur_guest rs = hs @ rest) \<and> (\<exists>rest. List.map_filter ur_reply rs = gs @ rest) \<and>
     (if ended then length hs = length gs \<or> length hs = length gs + 1 else length hs = length rs \<and> length gs = length rs) \<and>
     (ended \<longleftrightarrow> (\<exists>r \<in> set rs. ur_guest r = None \<or> \<not> ur_host_ok r \<or> ur_reply r = None \<or> \<not> ur_guest_ok r))"
  using relay_udp_spec [of rs] by (cases "relay_udp rs") blast

definition sample_rounds :: "udp_round list" where
  "sample_rounds =
     [\<lparr>ur_guest = Some [1], ur_host_ok = True, ur_reply = Some [2], ur_guest_ok = True\<rparr>,
      \<lparr>ur_guest = Some [3], ur_host_ok = True, ur_reply = None, ur_guest_ok = True\<rparr>,
      \<lparr>ur_guest = Some [4], ur_host_ok = True, ur_reply = Some [5], ur_guest_ok = True\<rparr>]"

lemma udp_relay_lockstep_witness:
  "relay_udp sample_rounds = ([[1], [3]], [[2]], True) \<and>
   (\<exists>rest. List.map_filter ur_guest sample_rounds = [[1], [3]] @ rest)"
proof -
  have r: "relay_udp sample_rounds = ([[1], [3]], [[2]], True)" by (simp add: sample_rounds_def)
  with udp_relay_lockstep [of sample_rounds] show ?thesis by auto
qed

end
