(* ===== verification/GoText.thy ===== *)
theory GoText
  imports GoStd
begin

text \<open>
  More of Go's standard library: base64, reading text by lines, and addresses and networks
  as text.
\<close>

section \<open>encoding/base64\<close>

text \<open>
  \<^verbatim>\<open>StdEncoding\<close>: the alphabet, decoding of quartets with padding in the last one only,
  and encoding. Line ends inside the text are skipped by the decoder.
\<close>

definition b64_alphabet :: string where
  "b64_alphabet = ''ABCDEFGHIJKLMNOPQRSTUVWXYZabcdefghijklmnopqrstuvwxyz0123456789+/''"

definition b64_char :: "nat \<Rightarrow> char" where
  "b64_char n = b64_alphabet ! n"

definition b64_val :: "char \<Rightarrow> nat option" where
  "b64_val c = map_of (zip b64_alphabet [0..<64]) c"

definition byte_at :: "nat \<Rightarrow> nat \<Rightarrow> byte" where
  "byte_at n i = of_nat (n div 256 ^ i mod 256)"

definition b64_three :: "nat \<Rightarrow> nat \<Rightarrow> nat \<Rightarrow> nat \<Rightarrow> bytes" where
  "b64_three a b c d = (let n = ((a * 64 + b) * 64 + c) * 64 + d in [byte_at n 2, byte_at n 1, byte_at n 0])"

fun b64_groups :: "string \<Rightarrow> bytes option" where
  "b64_groups [] = Some []"
| "b64_groups (a # b # c # d # rest) =
     (if rest = [] \<and> d = CHR ''='' then
        (if c = CHR ''='' then do { x \<leftarrow> b64_val a; y \<leftarrow> b64_val b; Some (take 1 (b64_three x y 0 0)) }
         else do { x \<leftarrow> b64_val a; y \<leftarrow> b64_val b; z \<leftarrow> b64_val c; Some (take 2 (b64_three x y z 0)) })
      else do { x \<leftarrow> b64_val a; y \<leftarrow> b64_val b; z \<leftarrow> b64_val c; w \<leftarrow> b64_val d;
                bs \<leftarrow> b64_groups rest; Some (b64_three x y z w @ bs) })"
| "b64_groups _ = None"

definition b64_decode :: "string \<Rightarrow> bytes option" where
  "b64_decode s = b64_groups (filter (\<lambda>c. c \<noteq> char_of (10 :: nat) \<and> c \<noteq> char_of (13 :: nat)) s)"

definition sextet :: "nat \<Rightarrow> nat \<Rightarrow> nat" where
  "sextet n i = n div 64 ^ i mod 64"

definition word24 :: "byte \<Rightarrow> byte \<Rightarrow> byte \<Rightarrow> nat" where
  "word24 x y z = unat x * 65536 + unat y * 256 + unat z"

fun b64_encode :: "bytes \<Rightarrow> string" where
  "b64_encode [] = []"
| "b64_encode [x] = (let n = word24 x 0 0 in
     [b64_char (sextet n 3), b64_char (sextet n 2), CHR ''='', CHR ''=''])"
| "b64_encode [x, y] = (let n = word24 x y 0 in
     [b64_char (sextet n 3), b64_char (sextet n 2), b64_char (sextet n 1), CHR ''=''])"
| "b64_encode (x # y # z # bs) = (let n = word24 x y z in
     [b64_char (sextet n 3), b64_char (sextet n 2), b64_char (sextet n 1), b64_char (sextet n 0)]
       @ b64_encode bs)"

lemma sextet_less [simp]: "sextet n i < 64"
  by (simp add: sextet_def)

lemma b64_val_char: "n < 64 \<Longrightarrow> b64_val (b64_char n) = Some n"
proof -
  have "\<forall>n \<in> set [0..<64]. b64_val (b64_char n) = Some n" by code_simp
  then show "n < 64 \<Longrightarrow> b64_val (b64_char n) = Some n" by simp
qed

lemma b64_char_plain:
  assumes "n < 64"
  shows "b64_char n \<noteq> CHR ''=''" "b64_char n \<noteq> char_of (10 :: nat)" "b64_char n \<noteq> char_of (13 :: nat)"
proof -
  have "\<forall>n \<in> set [0..<64]. b64_char n \<noteq> CHR ''='' \<and> b64_char n \<noteq> char_of (10 :: nat) \<and> b64_char n \<noteq> char_of (13 :: nat)"
    by code_simp
  with assms show "b64_char n \<noteq> CHR ''=''" "b64_char n \<noteq> char_of (10 :: nat)" "b64_char n \<noteq> char_of (13 :: nat)"
    by simp_all
qed

lemma word24_bytes: "byte_at (word24 x y z) 2 = x" "byte_at (word24 x y z) 1 = y" "byte_at (word24 x y z) 0 = z"
    "word24 x y z < 16777216"
proof -
  have b: "unat x < 256" "unat y < 256" "unat z < 256" by (rule byte_bound)+
  then show "word24 x y z < 16777216" by (simp add: word24_def)
  have n: "word24 x y z = (unat x * 256 + unat y) * 256 + unat z" by (simp add: word24_def)
  have dm: "(a * 256 + c) div 256 = a" "(a * 256 + c) mod 256 = c" if "c < 256" for a c :: nat
    using that by simp_all
  have "word24 x y z div 256 = unat x * 256 + unat y" "word24 x y z mod 256 = unat z"
    unfolding n using b dm by blast+
  moreover have "word24 x y z div 65536 = unat x" using b by (simp add: word24_def)
  moreover have "(unat x * 256 + unat y) mod 256 = unat y" using b dm by blast
  ultimately show "byte_at (word24 x y z) 2 = x" "byte_at (word24 x y z) 1 = y" "byte_at (word24 x y z) 0 = z"
    using b by (simp_all add: byte_at_def)
qed

lemma sextet_pads: "sextet (word24 x y 0) 0 = 0" "sextet (word24 x 0 0) 1 = 0"
proof -
  have "word24 x y 0 = 64 * (unat x * 1024 + unat y * 4)" "word24 x 0 0 = 64 * (64 * (unat x * 16))" for y
    by (simp_all add: word24_def)
  then show "sextet (word24 x y 0) 0 = 0" "sextet (word24 x 0 0) 1 = 0" by (simp_all only: sextet_def) simp_all
qed

lemma sextets:
  assumes "n < 16777216"
  shows "b64_three (sextet n 3) (sextet n 2) (sextet n 1) (sextet n 0) = [byte_at n 2, byte_at n 1, byte_at n 0]"
proof -
  have e: "n div 64 ^ Suc i * 64 + sextet n i = n div 64 ^ i" for i
    using div_mult_mod_eq [of "n div 64 ^ i" 64] by (simp only: sextet_def power_Suc2 div_mult2_eq)
  have "sextet n 3 = n div 64 ^ Suc 2" using assms by (simp add: sextet_def)
  then have "sextet n 3 * 64 + sextet n 2 = n div 64 ^ Suc 1" using e [of 2] by (simp add: numeral_2_eq_2)
  then have "(sextet n 3 * 64 + sextet n 2) * 64 + sextet n 1 = n div 64 ^ Suc 0" using e [of 1] by (simp only: One_nat_def)
  then have "((sextet n 3 * 64 + sextet n 2) * 64 + sextet n 1) * 64 + sextet n 0 = n" using e [of 0] by simp
  then show ?thesis by (simp add: b64_three_def Let_def)
qed

lemmas word24_three = sextets [OF word24_bytes(4), unfolded word24_bytes(1-3)]

lemma b64_groups_encode: "b64_groups (b64_encode bs) = Some bs"
proof (induction bs rule: b64_encode.induct)
  case (2 x)
  show ?case using word24_three [of x 0 0] sextet_pads(2) [of x]
    by (simp add: Let_def b64_val_char b64_char_plain sextet_pads)
next
  case (3 x y)
  show ?case using word24_three [of x y 0] by (simp add: Let_def b64_val_char b64_char_plain sextet_pads)
next
  case (4 x y z bs)
  then show ?case using word24_three [of x y z] by (simp add: Let_def b64_val_char b64_char_plain)
qed simp

lemma b64_encode_chars: "c \<in> set (b64_encode bs) \<Longrightarrow> c = CHR ''='' \<or> (\<exists>n<64. c = b64_char n)"
  by (induction bs rule: b64_encode.induct) (auto simp: Let_def intro: sextet_less)

lemma b64_decode_encode: "b64_decode (b64_encode bs) = Some bs"
proof -
  have "\<forall>c \<in> set (b64_encode bs). c \<noteq> char_of (10 :: nat) \<and> c \<noteq> char_of (13 :: nat)"
  proof
    fix c assume "c \<in> set (b64_encode bs)"
    moreover have "CHR ''='' \<noteq> char_of (10 :: nat)" "CHR ''='' \<noteq> char_of (13 :: nat)" by code_simp+
    ultimately show "c \<noteq> char_of (10 :: nat) \<and> c \<noteq> char_of (13 :: nat)"
      using b64_encode_chars [of c bs] b64_char_plain by auto
  qed
  then show ?thesis by (simp add: b64_decode_def b64_groups_encode filter_id_conv [THEN iffD2])
qed

section \<open>strings and bufio\<close>

definition lower_char :: "char \<Rightarrow> char" where
  "lower_char c = (if c \<in> set ''ABCDEFGHIJKLMNOPQRSTUVWXYZ''
     then (case c of Char b0 b1 b2 b3 b4 b5 b6 b7 \<Rightarrow> Char b0 b1 b2 b3 b4 True b6 b7) else c)"

text \<open>\<^verbatim>\<open>strings.ToLower\<close> on ASCII text.\<close>

primrec to_lower :: "string \<Rightarrow> string" where
  "to_lower [] = []"
| "to_lower (c # s) = lower_char c # to_lower s"

text \<open>\<^verbatim>\<open>strings.Trim\<close> with a cut set.\<close>

definition trim_set :: "string \<Rightarrow> string \<Rightarrow> string" where
  "trim_set cs s = rev (dropWhile (\<lambda>c. c \<in> set cs) (rev (dropWhile (\<lambda>c. c \<in> set cs) s)))"

text \<open>
  \<^verbatim>\<open>bufio.Scanner\<close> over lines: split at line feeds, no empty last line, one trailing
  carriage return dropped from each. A line that does not fit the scanner's buffer of 64 KiB
  ends the scan with an error.
\<close>

definition newline :: char where "newline = char_of (10 :: nat)"

definition max_scan_token :: int where "max_scan_token = 65536"

definition drop_cr :: "string \<Rightarrow> string" where
  "drop_cr s = (if s \<noteq> [] \<and> last s = char_of (13 :: nat) then butlast s else s)"

definition raw_lines :: "string \<Rightarrow> string list" where
  "raw_lines s = (let ls = split_on newline s in if last ls = [] then butlast ls else ls)"

definition scan_lines :: "string \<Rightarrow> string list \<times> bool" where
  "scan_lines s = (let ls = raw_lines s; fit = takeWhile (\<lambda>l. int (length l) < max_scan_token) ls
     in (map drop_cr fit, fit = ls))"

section \<open>net: addresses as text\<close>

definition hex_lower :: "nat \<Rightarrow> string" where
  "hex_lower n =
     (let ds = [n div 4096 mod 16, n div 256 mod 16, n div 16 mod 16] in
      map hex_char (dropWhile (\<lambda>d. d = 0) ds @ [n mod 16]))"

definition u16_groups :: "bytes \<Rightarrow> nat list" where
  "u16_groups b = map (\<lambda>i. unat (b ! (2 * i)) * 256 + unat (b ! (2 * i + 1))) [0..<length b div 2]"

definition zero_run :: "nat list \<Rightarrow> nat \<Rightarrow> nat" where
  "zero_run gs i = length (takeWhile (\<lambda>g. g = 0) (drop i gs))"

text \<open>The first longest run of at least two zero groups.\<close>

definition best_run :: "nat list \<Rightarrow> (nat \<times> nat) option" where
  "best_run gs = fold (\<lambda>i best.
      let l = zero_run gs i in
      if 2 \<le> l \<and> l > (case best of None \<Rightarrow> 0 | Some (_, m) \<Rightarrow> m) then Some (i, l) else best)
     [0..<length gs] None"

definition ip6_string :: "bytes \<Rightarrow> string" where
  "ip6_string b = (let gs = u16_groups b in case best_run gs of
       None \<Rightarrow> join_with '':'' (map hex_lower gs)
     | Some (i, l) \<Rightarrow> join_with '':'' (map hex_lower (take i gs)) @ ''::'' @
         join_with '':'' (map hex_lower (drop (i + l) gs)))"

text \<open>\<^verbatim>\<open>net.IP.String\<close> of an address of 4 or 16 bytes.\<close>

definition ip_text :: "bytes \<Rightarrow> string" where
  "ip_text ip = (case to4 ip of Some a \<Rightarrow> ip4_string a | None \<Rightarrow> ip6_string ip)"

text \<open>\<^verbatim>\<open>IPMask.Size\<close>, the number of leading ones, or zero for a mask with holes.\<close>

definition mask_size :: "bytes \<Rightarrow> nat" where
  "mask_size m = (case find (\<lambda>n. mask_bytes (length m) n = m) [0..<Suc (8 * length m)] of
       Some n \<Rightarrow> n | None \<Rightarrow> 0)"

text \<open>\<^verbatim>\<open>IPNet.String\<close>, for a network with a proper mask.\<close>

definition net_text :: "ipnet \<Rightarrow> string" where
  "net_text n = (
     let m = (if to4 (net_ip n) \<noteq> None \<and> length (net_mask n) = 16 then drop 12 (net_mask n) else net_mask n)
     in ip_text (net_ip n) @ ''/'' @ dec (mask_size m))"

end
