(* ===== verification/WgConf.thy ===== *)
theory WgConf
  imports Config GoText "HOL-Library.List_Lexorder" "HOL-Library.Char_ord"
begin

text \<open>
  The tunnel's configuration file, \<^verbatim>\<open>internal/wgup/conf.go\<close>: the record the reader fills,
  key values (base64 keys, lists of networks, DNS servers), lines and sections, the final
  checks of \<^verbatim>\<open>Parse\<close>, and which file \<^verbatim>\<open>ResolvePath\<close> picks. The lemmas carry the
  well-formedness of the record through every key, and evaluate one sample file.
\<close>


section \<open>Data\<close>

record wg_conf =
  wc_path :: string
  wc_private :: "bytes option"
  wc_preshared :: "bytes option"
  wc_addresses :: "ipnet list"
  wc_dns :: "bytes list"
  wc_peer :: "bytes option"
  wc_allowed :: "ipnet list"
  wc_endpoint :: string
  wc_keepalive :: u16
  wc_mtu :: int

definition empty_conf :: "string \<Rightarrow> wg_conf" where
  "empty_conf path = \<lparr>wc_path = path, wc_private = None, wc_preshared = None, wc_addresses = [], wc_dns = [],
     wc_peer = None, wc_allowed = [], wc_endpoint = '''', wc_keepalive = 0, wc_mtu = 0\<rparr>"

datatype conf_error =
    NotKeyValue nat
  | BadKey nat
  | BadNetwork nat string
  | BadEndpoint nat string
  | BadNumber nat string
  | KeepaliveRange nat int
  | LineTooLong
  | NoPrivateKey
  | NoPeerKey
  | NoAllowedIPs
  | NoEndpoint

section \<open>Values\<close>

definition decode_key :: "nat \<Rightarrow> string \<Rightarrow> conf_error + bytes" where
  "decode_key line v = (case b64_decode v of
       None \<Rightarrow> Inl (BadKey line)
     | Some raw \<Rightarrow> if length raw \<noteq> 32 then Inl (BadKey line) else Inr raw)"

text \<open>One element of a list of networks: a CIDR, or a bare address as a host route.\<close>

definition parse_network :: "nat \<Rightarrow> string \<Rightarrow> conf_error + ipnet" where
  "parse_network line part = (case parse_cidr part of
       Some net \<Rightarrow> Inr net
     | None \<Rightarrow>
         let ip = parse_ip part in
         if ip = [] then Inl (BadNetwork line part)
         else let bits = (if to4 ip = None then 128 else 32) in
           Inr \<lparr>net_ip = ip, net_mask = mask_bytes (bits div 8) bits\<rparr>)"

fun parse_networks :: "nat \<Rightarrow> string list \<Rightarrow> conf_error + ipnet list" where
  "parse_networks line [] = Inr []"
| "parse_networks line (p # ps) = (
     let part = trim_space p in
     if part = '''' then parse_networks line ps
     else (case parse_network line part of
         Inl e \<Rightarrow> Inl e
       | Inr net \<Rightarrow> (case parse_networks line ps of Inl e \<Rightarrow> Inl e | Inr nets \<Rightarrow> Inr (net # nets))))"

definition parse_cidrs :: "nat \<Rightarrow> string \<Rightarrow> conf_error + ipnet list" where
  "parse_cidrs line v = parse_networks line (split_on CHR '','' v)"

definition parse_dns :: "string \<Rightarrow> bytes list" where
  "parse_dns v = filter (\<lambda>ip. ip \<noteq> []) (map (\<lambda>d. parse_ip (trim_space d)) (split_on CHR '','' v))"

section \<open>Lines\<close>

text \<open>A key of the two sections the reader knows; any other key and section is ignored.\<close>

definition interface_key :: "nat \<Rightarrow> string \<Rightarrow> string \<Rightarrow> wg_conf \<Rightarrow> conf_error + wg_conf" where
  "interface_key line k v c =
     (if k = ''privatekey'' then (case decode_key line v of Inl e \<Rightarrow> Inl e | Inr key \<Rightarrow> Inr (c\<lparr>wc_private := Some key\<rparr>))
      else if k = ''address'' then (case parse_cidrs line v of Inl e \<Rightarrow> Inl e | Inr nets \<Rightarrow> Inr (c\<lparr>wc_addresses := nets\<rparr>))
      else if k = ''dns'' then Inr (c\<lparr>wc_dns := wc_dns c @ parse_dns v\<rparr>)
      else if k = ''mtu'' then (case atoi v of None \<Rightarrow> Inl (BadNumber line v) | Some n \<Rightarrow> Inr (c\<lparr>wc_mtu := n\<rparr>))
      else Inr c)"

definition peer_key :: "nat \<Rightarrow> string \<Rightarrow> string \<Rightarrow> wg_conf \<Rightarrow> conf_error + wg_conf" where
  "peer_key line k v c =
     (if k = ''publickey'' then (case decode_key line v of Inl e \<Rightarrow> Inl e | Inr key \<Rightarrow> Inr (c\<lparr>wc_peer := Some key\<rparr>))
      else if k = ''presharedkey'' then (case decode_key line v of Inl e \<Rightarrow> Inl e | Inr key \<Rightarrow> Inr (c\<lparr>wc_preshared := Some key\<rparr>))
      else if k = ''allowedips'' then (case parse_cidrs line v of Inl e \<Rightarrow> Inl e | Inr nets \<Rightarrow> Inr (c\<lparr>wc_allowed := nets\<rparr>))
      else if k = ''endpoint'' then
        (if split_host_port v = None then Inl (BadEndpoint line v) else Inr (c\<lparr>wc_endpoint := v\<rparr>))
      else if k = ''persistentkeepalive'' then
        (case atoi v of
           None \<Rightarrow> Inl (BadNumber line v)
         | Some ka \<Rightarrow> if ka < 0 \<or> ka > 65535 then Inl (KeepaliveRange line ka) else Inr (c\<lparr>wc_keepalive := of_int ka\<rparr>))
      else Inr c)"

datatype conf_line = Blank | Header string | Setting string string | Junk

fun setting :: "string \<times> string \<Rightarrow> conf_line" where
  "setting (key, value) = Setting (to_lower (trim_space key)) (trim_space value)"

definition line_kind :: "string \<Rightarrow> conf_line" where
  "line_kind line =
     (if line = '''' \<or> has_prefix line ''#'' \<or> has_prefix line '';'' then Blank
      else if has_prefix line ''['' then Header (trim_set ''[]'' line)
      else (case cut_at CHR ''='' line of None \<Rightarrow> Junk | Some kv \<Rightarrow> setting kv))"

definition set_key :: "nat \<Rightarrow> string \<Rightarrow> wg_conf \<Rightarrow> string \<Rightarrow> string \<Rightarrow> conf_error + (string \<times> wg_conf)" where
  "set_key n section c k v =
     (case (if section = ''Interface'' then interface_key n k v c
            else if section = ''Peer'' then peer_key n k v c
            else Inr c) of
        Inl e \<Rightarrow> Inl e
      | Inr c \<Rightarrow> Inr (section, c))"

fun parse_line :: "nat \<Rightarrow> string \<Rightarrow> string \<times> wg_conf \<Rightarrow> conf_error + (string \<times> wg_conf)" where
  "parse_line n raw (section, c) = (case line_kind (trim_space raw) of
       Blank \<Rightarrow> Inr (section, c)
     | Header name \<Rightarrow> Inr (name, c)
     | Junk \<Rightarrow> Inl (NotKeyValue n)
     | Setting k v \<Rightarrow> set_key n section c k v)"

fun parse_lines :: "nat \<Rightarrow> string list \<Rightarrow> string \<times> wg_conf \<Rightarrow> conf_error + (string \<times> wg_conf)" where
  "parse_lines n [] st = Inr st"
| "parse_lines n (l # ls) st = (case parse_line (Suc n) l st of
      Inl e \<Rightarrow> Inl e
    | Inr st \<Rightarrow> parse_lines (Suc n) ls st)"

definition parse_conf :: "string \<Rightarrow> string \<Rightarrow> conf_error + wg_conf" where
  "parse_conf data path = (case scan_lines data of (ls, complete) \<Rightarrow>
     (case parse_lines 0 ls ('''', empty_conf path) of
        Inl e \<Rightarrow> Inl e
      | Inr (_, c) \<Rightarrow>
          if \<not> complete then Inl LineTooLong
          else if wc_private c = None then Inl NoPrivateKey
          else if wc_peer c = None then Inl NoPeerKey
          else if wc_allowed c = [] then Inl NoAllowedIPs
          else if wc_endpoint c = '''' then Inl NoEndpoint
          else Inr c))"

section \<open>Finding the file\<close>

datatype path_error = OverrideMissing string | NoWorkingDir | NoConfigDir | NoConfFile string

text \<open>
  \<open>exists\<close> is \<^verbatim>\<open>os.Stat\<close>, \<open>wd\<close> the working directory, \<open>entries\<close> the directory's
  names with whether each is a directory.
\<close>

definition conf_names :: "(string \<times> bool) list \<Rightarrow> string list" where
  "conf_names entries = map fst (filter (\<lambda>(n, dir). \<not> dir \<and> has_suffix n ''.conf'') entries)"

definition resolve_path :: "(string \<Rightarrow> bool) \<Rightarrow> string option \<Rightarrow> (string \<Rightarrow> (string \<times> bool) list option) \<Rightarrow> string
    \<Rightarrow> path_error + string" where
  "resolve_path exists wd readdir override =
     (if override \<noteq> '''' then (if exists override then Inr override else Inl (OverrideMissing override))
      else (case wd of
          None \<Rightarrow> Inl NoWorkingDir
        | Some w \<Rightarrow>
            let dir = path_join (path_join w ''.config'') ''wireguard'' in
            (case readdir dir of
               None \<Rightarrow> Inl NoConfigDir
             | Some entries \<Rightarrow>
                 (case sort (conf_names entries) of
                    [] \<Rightarrow> Inl (NoConfFile dir)
                  | n # _ \<Rightarrow> Inr (path_join dir n)))))"

section \<open>Well-formed networks\<close>

lemma v6_loop_length:
  "v6_loop s ip ell = Some (rest, out, e) \<Longrightarrow> even (length ip) \<Longrightarrow> length ip \<le> 16 \<Longrightarrow> length out \<le> 16"
proof (induction s ip ell rule: v6_loop.induct)
  case (1 s ip ell)
  show ?case
  proof (cases "16 \<le> length ip")
    case True
    with 1 show ?thesis by (simp add: v6_loop.simps)
  next
    case False
    let ?h = "takeWhile is_hex s" and ?r = "dropWhile is_hex s"
    let ?ip = "ip @ [of_nat (hex_val ?h div 256), of_nat (hex_val ?h mod 256)]"
    have len: "even (length ?ip)" "length ?ip \<le> 16"
      using False "1.prems"(2) by (auto elim!: evenE)
    have h: "\<not> (?h = [] \<or> 4 < length ?h)" using "1.prems"(1) False by (auto simp: v6_loop.simps)
    note eq = "1.prems"(1) [unfolded v6_loop.simps [of s ip ell] Let_def]
    show ?thesis
    proof (cases ?r)
      case Nil
      with eq False h len show ?thesis by auto
    next
      case (Cons c r)
      note IH = "1.IH" [OF False refl refl h refl Cons]
      from eq False h Cons show ?thesis
        using IH(1,2) len by (auto split: if_splits list.splits dest: parse_ipv4_length)
    qed
  qed
qed

lemma parse_ipv6_length: "parse_ipv6 s = Some ip \<Longrightarrow> length ip = 16"
  using v6_loop_length [of _ "[]"]
  by (auto simp: parse_ipv6_def Let_def min_def split: if_splits option.splits prod.splits) (fastforce dest: v6_loop_length)+

lemma parse_addr_length: "parse_addr s = Some (is4, ip) \<Longrightarrow> length ip = 16 \<and> (is4 \<longrightarrow> take 12 ip = v4_prefix)"
  by (auto simp: parse_addr_def split: option.splits if_splits dest: parse_ipv4_length parse_ipv6_length)

lemma parse_ip_length: "parse_ip s = [] \<or> length (parse_ip s) = 16"
  using parse_addr_length by (auto simp: parse_ip_def split: option.splits)

text \<open>
  A network as the reader makes them: a proper mask of 4 or 16 bytes, over an address of
  the same size, or over the 16-byte form of an IPv4 address.
\<close>

definition net_wf :: "ipnet \<Rightarrow> bool" where
  "net_wf n \<longleftrightarrow> length (net_mask n) \<in> {4, 16} \<and>
     (\<exists>k \<le> 8 * length (net_mask n). net_mask n = mask_bytes (length (net_mask n)) k) \<and>
     (length (net_ip n) = length (net_mask n) \<or> length (net_mask n) = 4 \<and> length (net_ip n) = 16 \<and> to4 (net_ip n) \<noteq> None)"

lemma parse_cidr_wf: "parse_cidr s = Some n \<Longrightarrow> net_wf n"
proof -
  assume a: "parse_cidr s = Some n"
  then obtain addr bits is4 ip k where c: "cut_at CHR ''/'' s = Some (addr, bits)" "parse_addr addr = Some (is4, ip)"
      "parse_uint bits = Some k"
    by (auto simp: parse_cidr_def split: option.splits)
  let ?l = "if is4 then 4 else 16 :: nat"
  from a c have k: "k \<le> 8 * ?l"
    and n: "n = \<lparr>net_ip = map2 (AND) (if is4 then drop 12 ip else ip) (mask_bytes ?l k), net_mask = mask_bytes ?l k\<rparr>"
    by (auto simp: parse_cidr_def Let_def split: if_splits)
  from parse_addr_length [OF c(2)] k show ?thesis
    unfolding net_wf_def n by (cases is4) (auto simp del: mask_bytes.simps)
qed

lemma parse_network_wf: "parse_network line part = Inr n \<Longrightarrow> net_wf n"
  using parse_ip_length [of part]
  by (auto simp: parse_network_def Let_def net_wf_def simp del: mask_bytes.simps
      split: option.splits if_splits dest!: parse_cidr_wf [unfolded net_wf_def])

lemma parse_networks_wf: "parse_networks line ps = Inr ns \<Longrightarrow> \<forall>n \<in> set ns. net_wf n"
  by (induction ps arbitrary: ns)
    (auto simp: Let_def split: if_splits sum.splits dest: parse_network_wf)

section \<open>An accepted configuration is well formed\<close>

definition key_wf :: "bytes option \<Rightarrow> bool" where
  "key_wf k \<longleftrightarrow> (case k of None \<Rightarrow> True | Some b \<Rightarrow> length b = 32)"

definition conf_wf :: "wg_conf \<Rightarrow> bool" where
  "conf_wf c \<longleftrightarrow> key_wf (wc_private c) \<and> key_wf (wc_preshared c) \<and> key_wf (wc_peer c) \<and>
     (\<forall>n \<in> set (wc_addresses c). net_wf n) \<and> (\<forall>n \<in> set (wc_allowed c). net_wf n) \<and>
     (\<forall>ip \<in> set (wc_dns c). length ip = 16) \<and>
     (wc_endpoint c \<noteq> '''' \<longrightarrow> split_host_port (wc_endpoint c) \<noteq> None)"

lemma decode_key_length: "decode_key line v = Inr k \<Longrightarrow> length k = 32"
  by (auto simp: decode_key_def split: option.splits if_splits)

lemma key_wf_intros [simp]:
  "key_wf None"
  "key_wf (Some b) \<longleftrightarrow> length b = 32"
  by (simp_all add: key_wf_def)

text \<open>Each key writes one field.\<close>

lemma conf_wf_update:
  assumes "conf_wf c"
  shows "key_wf k \<Longrightarrow> conf_wf (c\<lparr>wc_private := k\<rparr>)"
    and "key_wf k \<Longrightarrow> conf_wf (c\<lparr>wc_peer := k\<rparr>)"
    and "key_wf k \<Longrightarrow> conf_wf (c\<lparr>wc_preshared := k\<rparr>)"
    and "\<forall>n \<in> set ns. net_wf n \<Longrightarrow> conf_wf (c\<lparr>wc_addresses := ns\<rparr>)"
    and "\<forall>n \<in> set ns. net_wf n \<Longrightarrow> conf_wf (c\<lparr>wc_allowed := ns\<rparr>)"
    and "\<forall>ip \<in> set ips. length ip = 16 \<Longrightarrow> conf_wf (c\<lparr>wc_dns := wc_dns c @ ips\<rparr>)"
    and "split_host_port e \<noteq> None \<Longrightarrow> conf_wf (c\<lparr>wc_endpoint := e\<rparr>)"
    and "conf_wf (c\<lparr>wc_mtu := m\<rparr>)"
    and "conf_wf (c\<lparr>wc_keepalive := ka\<rparr>)"
  using assms unfolding conf_wf_def by (simp_all add: ball_Un)

lemma parse_dns_length: "\<forall>ip \<in> set (parse_dns v). length ip = 16"
  using parse_ip_length by (auto simp: parse_dns_def)

lemma interface_key_wf:
  assumes "interface_key n k v c = Inr c'" "conf_wf c"
  shows "conf_wf c'"
  using assms(1) unfolding interface_key_def parse_cidrs_def
  by (simp split: if_split_asm sum.split_asm option.split_asm)
    (insert assms(2) conf_wf_update [OF assms(2)] parse_dns_length decode_key_length parse_networks_wf, auto)

lemma peer_key_wf:
  assumes "peer_key n k v c = Inr c'" "conf_wf c"
  shows "conf_wf c'"
  using assms(1) unfolding peer_key_def parse_cidrs_def
  by (simp split: if_split_asm sum.split_asm option.split_asm)
    (insert assms(2) conf_wf_update [OF assms(2)] decode_key_length parse_networks_wf, auto)

lemma parse_line_wf: "parse_line n l (s, c) = Inr (s', c') \<Longrightarrow> conf_wf c \<Longrightarrow> conf_wf c'"
  by (auto simp: set_key_def split: if_split_asm sum.split_asm conf_line.split_asm dest: interface_key_wf peer_key_wf)

lemma parse_lines_wf: "parse_lines n ls (s, c) = Inr (s', c') \<Longrightarrow> conf_wf c \<Longrightarrow> conf_wf c'"
proof (induction ls arbitrary: n s c)
  case (Cons l ls)
  then obtain s1 c1 where "parse_line (Suc n) l (s, c) = Inr (s1, c1)" "parse_lines (Suc n) ls (s1, c1) = Inr (s', c')"
    by (auto simp del: parse_line.simps split: sum.split_asm)
  with Cons.IH [of _ s1 c1] Cons.prems(2) show ?case by (auto simp del: parse_line.simps dest: parse_line_wf)
qed simp

lemma empty_conf_wf: "conf_wf (empty_conf path)"
  by (simp add: conf_wf_def empty_conf_def)

lemma parse_conf_wf: "parse_conf data path = Inr c \<Longrightarrow> conf_wf c"
  unfolding parse_conf_def
  by (auto split: prod.splits sum.splits if_splits dest: parse_lines_wf [OF _ empty_conf_wf])

text \<open>C34: A configuration the reader accepts is well formed and complete: its private key
  and its peer's key are 32 bytes, as is the preshared key if there is one, every address
  and every route is an address under a proper mask, its DNS servers are 16-byte addresses,
  at least one route goes into the tunnel, and the endpoint is a host and a port.\<close>

theorem conf_wellformed:
  assumes "parse_conf data path = Inr c"
  shows "conf_wf c \<and> wc_private c \<noteq> None \<and> wc_peer c \<noteq> None \<and> wc_allowed c \<noteq> [] \<and>
    (\<exists>h p. split_host_port (wc_endpoint c) = Some (h, p))"
proof -
  from assms obtain ls s c1 where l: "parse_lines 0 ls ('''', empty_conf path) = Inr (s, c1)"
    and c: "c1 = c" "wc_private c \<noteq> None" "wc_peer c \<noteq> None" "wc_allowed c \<noteq> []" "wc_endpoint c \<noteq> ''''"
    unfolding parse_conf_def by (auto split: prod.splits sum.splits if_splits)
  from parse_lines_wf [OF l empty_conf_wf] c show ?thesis
    by (auto simp: conf_wf_def)
qed


definition tight :: "string \<Rightarrow> bool" where
  "tight s \<longleftrightarrow> s \<noteq> [] \<and> plain (hd s) \<and> plain (last s)"

lemma trim_tight: "tight s \<Longrightarrow> trim_space s = s"
  unfolding tight_def by (rule trim_space_plain) simp

lemma cut_at_append: "c \<notin> set a \<Longrightarrow> cut_at c (a @ c # b) = Some (a, b)"
  unfolding cut_at_def by (simp add: takeWhile_append2 dropWhile_append2 cong: option.case_cong)
    (metis (mono_tags, lifting) append.right_neutral dropWhile_append2 list.sel(3) dropWhile.simps(2) takeWhile_append2 takeWhile.simps(2))

lemma setting_line:
  assumes "tight a" "tight b" "hd a \<notin> set ''#;[''" "CHR ''='' \<notin> set a"
  shows "parse_line n (a @ CHR ''='' # b) (s, c) = set_key n s c (to_lower a) b"
proof -
  have a: "a \<noteq> []" and "tight (a @ CHR ''='' # b)" using assms(1,2) by (auto simp: tight_def)
  moreover have "\<not> has_prefix (a @ CHR ''='' # b) [x]" if "x \<in> set ''#;[''" for x
    using that assms(3) a by (cases a) (auto simp: has_prefix_def)
  ultimately show ?thesis
    using assms by (simp add: trim_tight line_kind_def cut_at_append)
qed

definition sample_conf :: string where
  "sample_conf = join_with [newline]
     [''[Interface]'', ''PrivateKey=AAAAAAAAAAAAAAAAAAAAAAAAAAAAAAAAAAAAAAAAAAA='', ''[Peer]'', ''PublicKey=AAAAAAAAAAAAAAAAAAAAAAAAAAAAAAAAAAAAAAAAAAA='',
      ''AllowedIPs=0.0.0.0/0'', ''Endpoint=192.0.2.1:51820'']"

lemma sample_lines:
  "parse_line n ''[Interface]'' (s, c) = Inr (''Interface'', c)"
  "parse_line n ''[Peer]'' (s, c) = Inr (''Peer'', c)"
  "parse_line n ''PrivateKey=AAAAAAAAAAAAAAAAAAAAAAAAAAAAAAAAAAAAAAAAAAA='' (s, c) = set_key n s c ''privatekey'' ''AAAAAAAAAAAAAAAAAAAAAAAAAAAAAAAAAAAAAAAAAAA=''"
  "parse_line n ''PublicKey=AAAAAAAAAAAAAAAAAAAAAAAAAAAAAAAAAAAAAAAAAAA='' (s, c) = set_key n s c ''publickey'' ''AAAAAAAAAAAAAAAAAAAAAAAAAAAAAAAAAAAAAAAAAAA=''"
  "parse_line n ''AllowedIPs=0.0.0.0/0'' (s, c) = set_key n s c ''allowedips'' ''0.0.0.0/0''"
  "parse_line n ''Endpoint=192.0.2.1:51820'' (s, c) = set_key n s c ''endpoint'' ''192.0.2.1:51820''"
proof -
  have p: "\<forall>c \<in> set ''PAE[]su=0''. plain c" by code_simp
  have t: "tight ''PrivateKey''" "tight ''PublicKey''" "tight ''AllowedIPs''" "tight ''Endpoint''"
      "tight ''AAAAAAAAAAAAAAAAAAAAAAAAAAAAAAAAAAAAAAAAAAA=''" "tight ''0.0.0.0/0''" "tight ''192.0.2.1:51820''"
      "tight ''[Interface]''" "tight ''[Peer]''"
    by (simp_all add: tight_def) code_simp+
  have l: "to_lower ''PrivateKey'' = ''privatekey''" "to_lower ''PublicKey'' = ''publickey''"
      "to_lower ''AllowedIPs'' = ''allowedips''" "to_lower ''Endpoint'' = ''endpoint''"
    by code_simp+
  show "parse_line n ''[Interface]'' (s, c) = Inr (''Interface'', c)"
    "parse_line n ''[Peer]'' (s, c) = Inr (''Peer'', c)"
    using t by (simp_all add: trim_tight line_kind_def has_prefix_def trim_set_def)
  show "parse_line n ''PrivateKey=AAAAAAAAAAAAAAAAAAAAAAAAAAAAAAAAAAAAAAAAAAA='' (s, c) = set_key n s c ''privatekey'' ''AAAAAAAAAAAAAAAAAAAAAAAAAAAAAAAAAAAAAAAAAAA=''"
    "parse_line n ''PublicKey=AAAAAAAAAAAAAAAAAAAAAAAAAAAAAAAAAAAAAAAAAAA='' (s, c) = set_key n s c ''publickey'' ''AAAAAAAAAAAAAAAAAAAAAAAAAAAAAAAAAAAAAAAAAAA=''"
    "parse_line n ''AllowedIPs=0.0.0.0/0'' (s, c) = set_key n s c ''allowedips'' ''0.0.0.0/0''"
    "parse_line n ''Endpoint=192.0.2.1:51820'' (s, c) = set_key n s c ''endpoint'' ''192.0.2.1:51820''"
    using setting_line [OF t(1,5), of n s c, unfolded l] setting_line [OF t(2,5), of n s c, unfolded l]
      setting_line [OF t(3,6), of n s c, unfolded l] setting_line [OF t(4,7), of n s c, unfolded l]
    by (simp_all del: parse_line.simps)
qed

lemma zero_key_text: "b64_encode (replicate 32 0) = ''AAAAAAAAAAAAAAAAAAAAAAAAAAAAAAAAAAAAAAAAAAA=''"
proof -
  have r: "replicate 32 (0 :: byte) = [0, 0, 0, 0, 0, 0, 0, 0, 0, 0, 0, 0, 0, 0, 0, 0, 0, 0, 0, 0, 0, 0, 0, 0, 0, 0, 0, 0, 0, 0, 0, 0]"
    by (simp add: numeral_eq_Suc)
  have z: "word24 0 0 0 = 0" "sextet 0 i = 0" "b64_char 0 = CHR ''A''" for i
    by (simp_all add: word24_def sextet_def b64_char_def b64_alphabet_def)
  show ?thesis by (simp add: r z Let_def)
qed

lemma sample_values:
  "b64_decode ''AAAAAAAAAAAAAAAAAAAAAAAAAAAAAAAAAAAAAAAAAAA='' = Some (replicate 32 0)"
  "parse_cidrs n ''0.0.0.0/0'' = Inr [\<lparr>net_ip = [0, 0, 0, 0], net_mask = [0, 0, 0, 0]\<rparr>]"
  "split_host_port ''192.0.2.1:51820'' = Some (''192.0.2.1'', ''51820'')"
    apply (simp only: zero_key_text [symmetric] b64_decode_encode)
   apply code_simp
  apply code_simp
  done

lemma sample_scanned: "scan_lines sample_conf =
    ([''[Interface]'', ''PrivateKey=AAAAAAAAAAAAAAAAAAAAAAAAAAAAAAAAAAAAAAAAAAA='', ''[Peer]'', ''PublicKey=AAAAAAAAAAAAAAAAAAAAAAAAAAAAAAAAAAAAAAAAAAA='',
      ''AllowedIPs=0.0.0.0/0'', ''Endpoint=192.0.2.1:51820''], True)"
  by code_simp

definition sample_parsed :: wg_conf where
  "sample_parsed = \<lparr>wc_path = ''wg.conf'', wc_private = Some (replicate 32 0), wc_preshared = None,
     wc_addresses = [], wc_dns = [], wc_peer = Some (replicate 32 0),
     wc_allowed = [\<lparr>net_ip = [0, 0, 0, 0], net_mask = [0, 0, 0, 0]\<rparr>],
     wc_endpoint = ''192.0.2.1:51820'', wc_keepalive = 0, wc_mtu = 0\<rparr>"

lemma sample_conf_parsed: "parse_conf sample_conf ''wg.conf'' = Inr sample_parsed"
  unfolding parse_conf_def sample_scanned
  by (simp add: sample_lines sample_values set_key_def interface_key_def peer_key_def decode_key_def
      empty_conf_def sample_parsed_def del: parse_line.simps)

lemma conf_wellformed_witness:
  "\<exists>c. parse_conf sample_conf ''wg.conf'' = Inr c \<and> conf_wf c \<and> wc_private c \<noteq> None"
  using conf_wellformed [OF sample_conf_parsed] sample_conf_parsed by blast

end
