(* ===== verification/WgTunnel.thy ===== *)
theory WgTunnel
  imports NatStack WgConf
begin

text \<open>
  The wireguard tunnel, \<^verbatim>\<open>internal/wgup/tunnel.go\<close>, and the part of
  \<^verbatim>\<open>runInstance\<close> that starts it: networks for the netstack, the device's configuration
  text, \<^verbatim>\<open>Attach\<close> in its two modes with the stack's answers as arguments, the watch for
  the first handshake, and the bridge's two packet functions. The lemmas say what a stack
  looks like after a tunnel was attached, and after one was skipped.
\<close>


section \<open>Networks for the netstack\<close>

text \<open>\<open>True\<close> in the first component is IPv6.\<close>

definition proto_addr :: "ipnet \<Rightarrow> (bool \<times> bytes) option" where
  "proto_addr n = (case to4 (net_ip n) of
       Some a \<Rightarrow> Some (False, ip4_bytes a)
     | None \<Rightarrow> if length (net_ip n) \<notin> {4, 16} then None else Some (True, as16 (net_ip n)))"

definition subnet_of :: "'sub net_ops \<Rightarrow> ipnet \<Rightarrow> 'sub" where
  "subnet_of P n = (let bits = mask_size (net_mask n) in
     (case to4 (net_ip n) of
        Some a \<Rightarrow> prefix_subnet P (ip4_bytes a) bits
      | None \<Rightarrow> prefix_subnet P (as16 (net_ip n)) bits))"

definition has_family :: "ipnet list \<Rightarrow> nat \<Rightarrow> bool" where
  "has_family nets family = (\<exists>n \<in> set nets. (to4 (net_ip n) \<noteq> None) = (family = 4))"

definition cidr_strings :: "ipnet list \<Rightarrow> string list" where
  "cidr_strings nets = map net_text nets"

section \<open>The device's configuration\<close>

definition hex_text :: "bytes \<Rightarrow> string" where
  "hex_text bs = concat (map hex2 bs)"

definition bytes_of :: "bytes option \<Rightarrow> bytes" where
  "bytes_of k = (case k of None \<Rightarrow> [] | Some b \<Rightarrow> b)"

definition config_lines :: "wg_conf \<Rightarrow> string \<Rightarrow> string list" where
  "config_lines c ep =
     [''private_key='' @ hex_text (bytes_of (wc_private c)),
      ''public_key='' @ hex_text (bytes_of (wc_peer c))]
     @ (case wc_preshared c of None \<Rightarrow> [] | Some k \<Rightarrow> [''preshared_key='' @ hex_text k])
     @ [''endpoint='' @ ep]
     @ map (\<lambda>n. ''allowed_ip='' @ net_text n) (wc_allowed c)
     @ (if wc_keepalive c > 0 then [''persistent_keepalive_interval='' @ dec (unat (wc_keepalive c))] else [])"

definition device_config :: "wg_conf \<Rightarrow> string \<Rightarrow> string" where
  "device_config c ep = concat (map (\<lambda>l. l @ [newline]) (config_lines c ep))"

section \<open>Attaching the tunnel\<close>

datatype wg_mode = ModeStandalone | ModeSwitch

definition wg_nic :: nat where "wg_nic = 2"
definition wg_default_mtu :: int where "wg_default_mtu = 1420"

definition mode_name :: "wg_mode \<Rightarrow> string" where
  "mode_name m = (if m = ModeSwitch then ''switch'' else ''standalone'')"

text \<open>
  What the tunnel's set-up touches: the stack's interfaces and their addresses, promiscuous
  mode of each interface, forwarding for the two families, and the NAT with its routes.
\<close>

record 'sub wg_stack =
  ws_nics :: "(nat \<times> u32) list"
  ws_addrs :: "(nat \<times> bool \<times> bytes) list"
  ws_promisc :: "nat \<Rightarrow> bool"
  ws_forward4 :: bool
  ws_forward6 :: bool
  ws_nat :: "'sub nat_state"

text \<open>
  The answers of the libraries: creating the interface, adding an address, resolving the
  endpoint, and the device accepting its configuration.
\<close>

record wg_env =
  we_nic :: bool
  we_assign :: "bytes \<Rightarrow> bool"
  we_resolve :: "string \<Rightarrow> string option"
  we_ipc :: "string \<Rightarrow> bool"

datatype attach_error = NicRefused | NotAnIP ipnet | AddressRefused ipnet | DeviceRefused

record tunnel =
  tn_mtu :: int
  tn_endpoint :: string

definition add_address :: "wg_env \<Rightarrow> nat \<Rightarrow> ipnet \<Rightarrow> 'sub wg_stack \<Rightarrow> attach_error + 'sub wg_stack" where
  "add_address env nic n s = (case proto_addr n of
       None \<Rightarrow> Inl (NotAnIP n)
     | Some (v6, a) \<Rightarrow>
         if \<not> we_assign env a then Inl (AddressRefused n)
         else Inr (s\<lparr>ws_addrs := ws_addrs s @ [(nic, v6, a)]\<rparr>))"

text \<open>The addresses added before a refused one stay.\<close>

fun add_addresses :: "wg_env \<Rightarrow> nat \<Rightarrow> ipnet list \<Rightarrow> 'sub wg_stack \<Rightarrow> 'sub wg_stack \<times> attach_error option" where
  "add_addresses env nic [] s = (s, None)"
| "add_addresses env nic (n # ns) s = (case add_address env nic n s of
      Inl e \<Rightarrow> (s, Some e)
    | Inr s \<Rightarrow> add_addresses env nic ns s)"

fun route_nets :: "'sub net_ops \<Rightarrow> nat \<Rightarrow> ipnet list \<Rightarrow> 'sub wg_stack \<Rightarrow> 'sub wg_stack" where
  "route_nets P nic [] s = s"
| "route_nets P nic (n # ns) s =
     route_nets P nic ns (s\<lparr>ws_nat := add_route \<lparr>rt_dest = subnet_of P n, rt_nic = nic\<rparr> (ws_nat s)\<rparr>)"

definition forward_guest :: "'sub net_ops \<Rightarrow> nat \<Rightarrow> wg_conf \<Rightarrow> 'sub wg_stack \<Rightarrow> 'sub wg_stack" where
  "forward_guest P guest c s = (
     let s = s\<lparr>ws_promisc := (ws_promisc s)(guest := False)\<rparr>;
         s = route_nets P guest (wc_addresses c) s;
         s = (if has_family (wc_allowed c) 4 then s\<lparr>ws_forward4 := True\<rparr> else s)
     in if has_family (wc_allowed c) 6 then s\<lparr>ws_forward6 := True\<rparr> else s)"

definition attach :: "'sub net_ops \<Rightarrow> wg_env \<Rightarrow> nat \<Rightarrow> wg_conf \<Rightarrow> wg_mode \<Rightarrow> 'sub wg_stack
    \<Rightarrow> 'sub wg_stack \<times> (attach_error + tunnel)" where
  "attach P env guest c mode s = (
     let mtu = (if wc_mtu c \<le> 0 then wg_default_mtu else wc_mtu c) in
     if \<not> we_nic env then (s, Inl NicRefused)
     else
       let s = s\<lparr>ws_nics := ws_nics s @ [(wg_nic, of_int mtu)]\<rparr> in
       (case (case mode of
                ModeSwitch \<Rightarrow> add_addresses env wg_nic (wc_addresses c) s
              | ModeStandalone \<Rightarrow> (forward_guest P guest c s, None)) of
          (s, Some e) \<Rightarrow> (s, Inl e)
        | (s, None) \<Rightarrow>
            let s = route_nets P wg_nic (wc_allowed c) s;
                resolved = (case we_resolve env (wc_endpoint c) of Some r \<Rightarrow> r | None \<Rightarrow> wc_endpoint c) in
            if \<not> we_ipc env (device_config c resolved) then (s, Inl DeviceRefused)
            else (s, Inr \<lparr>tn_mtu = mtu, tn_endpoint = resolved\<rparr>)))"

section \<open>The instance's tunnel\<close>

text \<open>
  \<^verbatim>\<open>runInstance\<close>: the file is found, read and parsed, the tunnel attached to the NAT's stack,
  and with a switch the NAT told what the tunnel covers. A tunnel that does not attach is
  skipped.
\<close>

datatype load_failure = NoConf path_error | NotReadable string | NotParsed conf_error

definition load_conf :: "(string \<Rightarrow> string option) \<Rightarrow> string \<Rightarrow> load_failure + wg_conf" where
  "load_conf readfile path = (case readfile path of
       None \<Rightarrow> Inl (NotReadable path)
     | Some data \<Rightarrow> (case parse_conf data path of Inl e \<Rightarrow> Inl (NotParsed e) | Inr c \<Rightarrow> Inr c))"

definition tunnel_mode :: "config \<Rightarrow> wg_mode" where
  "tunnel_mode cfg = (if \<not> switch_enabled cfg then ModeStandalone else ModeSwitch)"

definition start_tunnel :: "'sub net_ops \<Rightarrow> wg_env \<Rightarrow> config \<Rightarrow> path_error + string \<Rightarrow> (string \<Rightarrow> string option)
    \<Rightarrow> 'sub wg_stack \<Rightarrow> load_failure + 'sub wg_stack \<times> tunnel option" where
  "start_tunnel P env cfg confPath readfile s = (case confPath of
       Inl e \<Rightarrow> Inl (NoConf e)
     | Inr path \<Rightarrow>
         (case load_conf readfile path of
            Inl e \<Rightarrow> Inl e
          | Inr c \<Rightarrow>
              let mode = tunnel_mode cfg in
              (case attach P env nic_id c mode s of
                 (s, Inl _) \<Rightarrow> Inr (s, None)
               | (s, Inr t) \<Rightarrow>
                   if mode = ModeSwitch
                   then Inr (s\<lparr>ws_nat := set_tunnel_subnets (map (subnet_of P) (wc_allowed c)) (ws_nat s)\<rparr>, Some t)
                   else Inr (s, Some t))))"

text \<open>The stack a NAT was built on: its one interface is promiscuous, nothing is forwarded.\<close>

definition nat_stack :: "u32 \<Rightarrow> 'sub nat_state \<Rightarrow> 'sub wg_stack" where
  "nat_stack mtu n = \<lparr>ws_nics = [(nic_id, mtu)], ws_addrs = [], ws_promisc = (\<lambda>i. i = nic_id),
     ws_forward4 = False, ws_forward6 = False, ws_nat = n\<rparr>"

section \<open>The handshake watch\<close>

text \<open>\<^verbatim>\<open>cut\<close>: the rest of a string after a prefix, with the string's own bounds check.\<close>

definition cut_head :: "string \<Rightarrow> string \<Rightarrow> string \<times> bool" where
  "cut_head s prefix =
     (if length prefix \<le> length s \<and> take (length prefix) s = prefix then (drop (length prefix) s, True) else (s, False))"

text \<open>\<^verbatim>\<open>strconv.ParseInt(s, 10, 64)\<close>'s value, errors ignored: zero for bad syntax, clamped out of range.\<close>

definition parse_int64 :: "string \<Rightarrow> int" where
  "parse_int64 s = (case s of
       [] \<Rightarrow> 0
     | c # r \<Rightarrow>
         if c = CHR ''-'' then (case parse_uint r of None \<Rightarrow> 0 | Some n \<Rightarrow> max (- int n) (- (2 ^ 63)))
         else (case parse_uint (if c = CHR ''+'' then r else s) of None \<Rightarrow> 0 | Some n \<Rightarrow> min (int n) (2 ^ 63 - 1)))"

definition stamp_line :: "string \<Rightarrow> int \<times> int \<Rightarrow> int \<times> int" where
  "stamp_line line st =
     (if snd (cut_head line ''last_handshake_time_sec='') then (parse_int64 (fst (cut_head line ''last_handshake_time_sec='')), snd st)
      else if snd (cut_head line ''last_handshake_time_nsec='') then (fst st, parse_int64 (fst (cut_head line ''last_handshake_time_nsec='')))
      else st)"

definition handshake_time :: "string option \<Rightarrow> (int \<times> int) option" where
  "handshake_time out = (case out of
       None \<Rightarrow> None
     | Some text \<Rightarrow>
         let st = fold stamp_line (split_on newline text) (0, 0) in
         if fst st = 0 then None else Some st)"

text \<open>The zero time of Go, 1 January of year 1, as seconds and nanoseconds since 1970.\<close>

definition zero_time :: "int \<times> int \<Rightarrow> bool" where
  "zero_time st \<longleftrightarrow> fst st * 10 ^ 9 + snd st = - 62135596800 * 10 ^ 9"

definition wg_up_timeout :: int where "wg_up_timeout = 15 * 10 ^ 9"

datatype watch_log = HandshakeCompleted | NoHandshakeYet

text \<open>The ticks of the watch, each with the clock and the device's answer, and the log lines.\<close>

fun watch_handshake :: "int \<Rightarrow> (int \<times> string option) list \<Rightarrow> bool \<Rightarrow> watch_log list" where
  "watch_handshake deadline [] warned = []"
| "watch_handshake deadline ((now, out) # ts) warned =
     (if (case handshake_time out of None \<Rightarrow> False | Some st \<Rightarrow> \<not> zero_time st) then [HandshakeCompleted]
      else if \<not> warned \<and> now > deadline then NoHandshakeYet # watch_handshake deadline ts True
      else watch_handshake deadline ts warned)"

section \<open>The bridge between device and stack\<close>

text \<open>\<^verbatim>\<open>Read\<close>: a packet of the stack for the device; \<open>None\<close> is a panic of the slice of the buffer.\<close>

datatype bridge_error = LinkClosed | ShortBuffer

definition bridge_read :: "bytes option \<Rightarrow> bytes \<Rightarrow> nat \<Rightarrow> (bridge_error + bytes \<times> nat) option" where
  "bridge_read pkt buf0 off = (case pkt of
       None \<Rightarrow> Some (Inl LinkClosed)
     | Some view \<Rightarrow> do {
         buf \<leftarrow> subslice_from buf0 off;
         if length view > length buf then Some (Inl ShortBuffer)
         else do { buf' \<leftarrow> copy_into buf0 off (off + length view) view; Some (Inr (buf', length view)) } })"

text \<open>\<^verbatim>\<open>Write\<close>: the packets injected, each with whether it is IPv6.\<close>

fun bridge_write :: "bytes list \<Rightarrow> nat \<Rightarrow> (bool \<times> bytes) list option" where
  "bridge_write [] off = Some []"
| "bridge_write (buf # bufs) off = do {
     p \<leftarrow> subslice_from buf off;
     if p = [] then bridge_write bufs off
     else if drop_bit 4 (hd p) = 4 then do { ps \<leftarrow> bridge_write bufs off; Some ((False, p) # ps) }
     else if drop_bit 4 (hd p) = 6 then do { ps \<leftarrow> bridge_write bufs off; Some ((True, p) # ps) }
     else bridge_write bufs off }"


section \<open>What attaching does\<close>

lemma add_addresses_ok:
  "add_addresses env nic ns s = (s', None) \<Longrightarrow>
     s' = s\<lparr>ws_addrs := ws_addrs s @ map (\<lambda>n. (nic, the (proto_addr n))) ns\<rparr>"
proof (induction ns arbitrary: s)
  case (Cons n ns)
  then obtain v6 a where a: "proto_addr n = Some (v6, a)"
    and r: "add_addresses env nic ns (s\<lparr>ws_addrs := ws_addrs s @ [(nic, v6, a)]\<rparr>) = (s', None)"
    by (auto simp: add_address_def split: sum.splits option.splits if_splits)
  from Cons.IH [OF r] a show ?case by simp
qed simp

lemma route_nets_effect:
  "route_nets P nic ns s = s\<lparr>ws_nat := (ws_nat s)\<lparr>n_routes :=
     n_routes (ws_nat s) @ map (\<lambda>n. \<lparr>rt_dest = subnet_of P n, rt_nic = nic\<rparr>) ns\<rparr>\<rparr>"
  by (induction ns arbitrary: s) (simp_all add: add_route_def)

lemma forward_guest_effect:
  "forward_guest P guest c s = s\<lparr>ws_promisc := (ws_promisc s)(guest := False),
     ws_forward4 := ws_forward4 s \<or> has_family (wc_allowed c) 4,
     ws_forward6 := ws_forward6 s \<or> has_family (wc_allowed c) 6,
     ws_nat := (ws_nat s)\<lparr>n_routes :=
       n_routes (ws_nat s) @ map (\<lambda>n. \<lparr>rt_dest = subnet_of P n, rt_nic = guest\<rparr>) (wc_addresses c)\<rparr>\<rparr>"
  by (simp add: forward_guest_def Let_def route_nets_effect)

lemma mask_size_le: "mask_size m \<le> 8 * length m"
proof (cases "find (\<lambda>n. mask_bytes (length m) n = m) [0..<Suc (8 * length m)]")
  case (Some n)
  then have "n \<in> set [0..<Suc (8 * length m)]" by (metis find_Some_iff nth_mem)
  with Some show ?thesis by (simp add: mask_size_def del: upt_Suc)
qed (simp add: mask_size_def del: upt_Suc)

text \<open>Is an IPv4 address in a network, by address and mask length?\<close>

definition in_net :: "ipnet \<Rightarrow> ip4 \<Rightarrow> bool" where
  "in_net n a = (case to4 (net_ip n) of
       None \<Rightarrow> False
     | Some b \<Rightarrow> (let k = mask_size (net_mask n) in
         drop_bit (32 - k) (ip4_u32 b) = drop_bit (32 - k) (ip4_u32 a)))"

definition v4_net :: "ipnet \<Rightarrow> bool" where
  "v4_net n \<longleftrightarrow> length (net_mask n) = 4"

lemma v4_net_to4: "net_wf n \<Longrightarrow> v4_net n \<Longrightarrow> to4 (net_ip n) \<noteq> None"
  by (auto simp: net_wf_def v4_net_def to4_length4)

lemma subnet_of_contains:
  assumes "net_ok P" "net_wf n" "v4_net n"
  shows "contains P (subnet_of P n) (ip4_bytes a) \<longleftrightarrow> in_net n a"
proof -
  from v4_net_to4 [OF assms(2,3)] obtain b where b: "to4 (net_ip n) = Some b" by auto
  have k: "mask_size (net_mask n) \<le> 32" using mask_size_le [of "net_mask n"] assms(3) by (simp add: v4_net_def)
  from net_okD(3) [OF assms(1) k] show ?thesis by (simp add: subnet_of_def in_net_def b Let_def)
qed

lemma attach_switch:
  assumes "attach P env guest c ModeSwitch s = (s', Inr t)"
  shows "s' = s\<lparr>ws_nics := ws_nics s'\<rparr>\<lparr>ws_addrs := ws_addrs s @ map (\<lambda>n. (wg_nic, the (proto_addr n))) (wc_addresses c)\<rparr>
     \<lparr>ws_nat := (ws_nat s)\<lparr>n_routes := n_routes (ws_nat s) @ map (\<lambda>n. \<lparr>rt_dest = subnet_of P n, rt_nic = wg_nic\<rparr>) (wc_allowed c)\<rparr>\<rparr>"
proof -
  let ?s = "s\<lparr>ws_nics := ws_nics s @ [(wg_nic, of_int (if wc_mtu c \<le> 0 then wg_default_mtu else wc_mtu c))]\<rparr>"
  from assms obtain s1 where a: "add_addresses env wg_nic (wc_addresses c) ?s = (s1, None)"
    and s: "s' = route_nets P wg_nic (wc_allowed c) s1"
    unfolding attach_def Let_def by (simp split: prod.split_asm option.split_asm if_split_asm)
  show ?thesis unfolding s add_addresses_ok [OF a] route_nets_effect by simp
qed

lemma start_tunnel_switch:
  assumes "start_tunnel P env cfg (Inr path) readfile (nat_stack mtu n0) = Inr (s, Some t)" and "switch_enabled cfg"
    and "readfile path = Some data" and "parse_conf data path = Inr c"
  shows "ws_nat s = n0\<lparr>n_tunnel := map (subnet_of P) (wc_allowed c),
       n_routes := n_routes n0 @ map (\<lambda>n. \<lparr>rt_dest = subnet_of P n, rt_nic = wg_nic\<rparr>) (wc_allowed c)\<rparr>"
    and "ws_addrs s = map (\<lambda>n. (wg_nic, the (proto_addr n))) (wc_addresses c)"
    and "\<not> ws_forward4 s" "\<not> ws_forward6 s"
proof -
  from assms obtain s1 where a: "attach P env nic_id c ModeSwitch (nat_stack mtu n0) = (s1, Inr t)"
    and s: "s = s1\<lparr>ws_nat := set_tunnel_subnets (map (subnet_of P) (wc_allowed c)) (ws_nat s1)\<rparr>"
    by (simp add: start_tunnel_def load_conf_def tunnel_mode_def split: prod.split_asm sum.split_asm)
  note s1 = attach_switch [OF a]
  have "ws_nat s1 = n0\<lparr>n_routes := n_routes n0 @ map (\<lambda>n. \<lparr>rt_dest = subnet_of P n, rt_nic = wg_nic\<rparr>) (wc_allowed c)\<rparr>"
    "ws_addrs s1 = map (\<lambda>n. (wg_nic, the (proto_addr n))) (wc_addresses c)" "\<not> ws_forward4 s1" "\<not> ws_forward6 s1"
    by (subst s1, simp add: nat_stack_def)+
  then show "ws_nat s = n0\<lparr>n_tunnel := map (subnet_of P) (wc_allowed c),
       n_routes := n_routes n0 @ map (\<lambda>n. \<lparr>rt_dest = subnet_of P n, rt_nic = wg_nic\<rparr>) (wc_allowed c)\<rparr>"
    "ws_addrs s = map (\<lambda>n. (wg_nic, the (proto_addr n))) (wc_addresses c)" "\<not> ws_forward4 s" "\<not> ws_forward6 s"
    by (simp_all add: s set_tunnel_subnets_def)
qed


definition willing_env :: wg_env where
  "willing_env = \<lparr>we_nic = True, we_assign = (\<lambda>_. True), we_resolve = Some, we_ipc = (\<lambda>_. True)\<rparr>"


section \<open>A tunnel that does not attach\<close>


definition offline_env :: wg_env where
  "offline_env = \<lparr>we_nic = True, we_assign = (\<lambda>_. True), we_resolve = (\<lambda>_. None), we_ipc = (\<lambda>_. False)\<rparr>"

definition standalone_config :: config where
  "standalone_config = defaults\<lparr>cf_switch := Some False, cf_uplink := ''wireguard''\<rparr>"


text \<open>
  The tunnel's address is read as a network, so that the interface gets the network's address
  and not the one that was configured.
\<close>

lemma tunnel_owns_network_address:
  "case parse_network n ''10.9.0.2/24'' of
     Inl _ \<Rightarrow> False
   | Inr net \<Rightarrow> proto_addr net = Some (False, ip4_bytes (IP4 10 9 0 0))"
  by code_simp

section \<open>The device's configuration has no line of its own making\<close>

lemma newline_eq [simp]:
  "newline = Char b0 b1 b2 b3 b4 b5 b6 b7 \<longleftrightarrow> \<not> b0 \<and> b1 \<and> \<not> b2 \<and> b3 \<and> \<not> b4 \<and> \<not> b5 \<and> \<not> b6 \<and> \<not> b7"
proof -
  have c: "newline = Char False True False True False False False False" by code_simp
  show ?thesis unfolding c char.inject by auto
qed

lemma dec_no_newline [simp]: "newline \<notin> set (dec n)"
  unfolding newline_def by (rule dec_not_in) simp

lemma hex_char_no_newline [simp]: "d < 16 \<Longrightarrow> hex_char d \<noteq> newline"
proof
  assume "d < 16" "hex_char d = newline"
  then have "(of_char (hex_char d) :: nat) = of_char newline" by simp
  with \<open>d < 16\<close> show False by (simp add: of_char_hex_char newline_def split: if_splits)
qed

lemma hex_text_no_newline [simp]: "newline \<notin> set (hex_text bs)"
proof -
  have "unat b div 16 < 16" for b :: byte using byte_bound [of b] by simp
  then show ?thesis by (auto simp: hex_text_def hex2_def dest: sym)
qed

lemma ip4_string_no_newline [simp]: "newline \<notin> set (ip4_string a)"
  by (cases a) (simp add: ip4_string_def)

lemma set_join_with: "set (join_with sep xs) \<subseteq> set sep \<union> (\<Union>x \<in> set xs. set x)"
  by (induction sep xs rule: join_with.induct) auto

lemma hex_lower_no_newline: "newline \<notin> set (hex_lower n)"
  by (auto simp: hex_lower_def Let_def dest!: set_dropWhileD sym [of newline])

lemma join_groups_no_newline: "newline \<notin> set (join_with '':'' (map hex_lower gs))"
  using set_join_with [of "'':''" "map hex_lower gs"] hex_lower_no_newline by auto

lemma net_text_no_newline [simp]: "newline \<notin> set (net_text n)"
  by (simp add: net_text_def ip_text_def ip6_string_def Let_def join_groups_no_newline split: option.splits)

lemma split_lines:
  "\<forall>l \<in> set ls. c \<notin> set l \<Longrightarrow> split_on c (concat (map (\<lambda>l. l @ [c]) ls)) = ls @ [[]]"
  by (induction ls) (simp_all add: split_on_cons)

lemma config_lines_no_newline: "newline \<notin> set ep \<Longrightarrow> \<forall>l \<in> set (config_lines c ep). newline \<notin> set l"
  by (auto simp: config_lines_def split: option.splits)

lemma device_config_lines: "newline \<notin> set ep \<Longrightarrow> split_on newline (device_config c ep) = config_lines c ep @ [[]]"
  unfolding device_config_def by (intro split_lines config_lines_no_newline)

text \<open>The reader of hexadecimal keys on the other side.\<close>

fun unhex :: "string \<Rightarrow> bytes option" where
  "unhex [] = Some []"
| "unhex (a # b # s) = do { x \<leftarrow> xtoi2 [a, b]; xs \<leftarrow> unhex s; Some (x # xs) }"
| "unhex _ = None"

lemma unhex_hex_text: "unhex (hex_text bs) = Some bs"
proof (induction bs)
  case (Cons b bs)
  have "hex_text (b # bs) = hd (hex2 b) # hd (tl (hex2 b)) # hex_text bs" "[hd (hex2 b), hd (tl (hex2 b))] = hex2 b"
    by (simp_all add: hex_text_def hex2_def)
  with Cons.IH show ?case by simp
qed (simp add: hex_text_def)

lemma cut_setting: "CHR ''='' \<notin> set k \<Longrightarrow> cut_at CHR ''='' (k @ CHR ''='' # v) = Some (k, v)"
  by (rule cut_at_append)

lemma cut_config_lines:
  "map (cut_at CHR ''='') (config_lines c ep) = map Some
     ([(''private_key'', hex_text (bytes_of (wc_private c))), (''public_key'', hex_text (bytes_of (wc_peer c)))]
      @ (case wc_preshared c of None \<Rightarrow> [] | Some k \<Rightarrow> [(''preshared_key'', hex_text k)])
      @ [(''endpoint'', ep)]
      @ map (\<lambda>n. (''allowed_ip'', net_text n)) (wc_allowed c)
      @ (if wc_keepalive c > 0 then [(''persistent_keepalive_interval'', dec (unat (wc_keepalive c)))] else []))"
proof -
  note k = cut_setting [of "''private_key''"] cut_setting [of "''public_key''"] cut_setting [of "''preshared_key''"]
    cut_setting [of "''endpoint''"] cut_setting [of "''allowed_ip''"] cut_setting [of "''persistent_keepalive_interval''"]
  show ?thesis using k [simplified] by (simp add: config_lines_def split: option.splits)
qed

text \<open>C35: The device is told exactly what the file says: read back line by line as keys and values, the
  text handed to it gives the private key and the peer's key, which the hexadecimal text
  determines, the preshared key if there is one, the endpoint, every route in order, and the
  keepalive if it is on, and nothing else.\<close>

theorem device_config_faithful:
  assumes "parse_conf data path = Inr c" and "newline \<notin> set ep"
  shows "\<exists>priv pub. wc_private c = Some priv \<and> wc_peer c = Some pub \<and>
     unhex (hex_text priv) = Some priv \<and> unhex (hex_text pub) = Some pub \<and>
     map (cut_at CHR ''='') (butlast (split_on newline (device_config c ep))) = map Some
       ([(''private_key'', hex_text priv), (''public_key'', hex_text pub)]
        @ (case wc_preshared c of None \<Rightarrow> [] | Some k \<Rightarrow> [(''preshared_key'', hex_text k)])
        @ [(''endpoint'', ep)]
        @ map (\<lambda>n. (''allowed_ip'', net_text n)) (wc_allowed c)
        @ (if wc_keepalive c > 0 then [(''persistent_keepalive_interval'', dec (unat (wc_keepalive c)))] else []))"
proof -
  from assms(1) obtain priv pub where k: "wc_private c = Some priv" "wc_peer c = Some pub"
    unfolding parse_conf_def by (auto split: prod.splits sum.splits if_splits)
  then show ?thesis
    using cut_config_lines [of c ep] by (simp add: device_config_lines [OF assms(2)] unhex_hex_text bytes_of_def)
qed

lemma device_config_faithful_witness:
  "length (butlast (split_on newline (device_config sample_parsed ''192.0.2.1:51820''))) = 4"
proof -
  have "newline \<notin> set ''192.0.2.1:51820''" by simp
  from device_config_faithful [OF sample_conf_parsed this]
  have "length (map (cut_at CHR ''='') (butlast (split_on newline (device_config sample_parsed ''192.0.2.1:51820'')))) = 4"
    by (auto simp: sample_parsed_def)
  then show ?thesis by simp
qed

section \<open>The handshake watch\<close>

lemma watch_warns_once: "watch_handshake dl ts True \<in> {[], [HandshakeCompleted]}"
  by (induction ts) (auto split: if_splits)

text \<open>The handshake watch says at most one thing of each kind: over any ticks it logs at most one
  warning, then at most one completion, which comes last; it completes exactly if some tick
  sees a handshake, and a tick past the deadline before that brings the warning.\<close>

lemma watch_logs:
  "watch_handshake dl ts False \<in> {[], [NoHandshakeYet], [HandshakeCompleted], [NoHandshakeYet, HandshakeCompleted]} \<and>
   (HandshakeCompleted \<in> set (watch_handshake dl ts w) \<longleftrightarrow>
      (\<exists>(now, out) \<in> set ts. \<exists>st. handshake_time out = Some st \<and> zero_time st = False))"
proof
  show "watch_handshake dl ts False \<in> {[], [NoHandshakeYet], [HandshakeCompleted], [NoHandshakeYet, HandshakeCompleted]}"
  proof (induction ts)
    case (Cons t ts)
    then show ?case using watch_warns_once [of dl ts] by (cases t) (auto split: if_splits)
  qed simp
  show "HandshakeCompleted \<in> set (watch_handshake dl ts w) \<longleftrightarrow>
      (\<exists>(now, out) \<in> set ts. \<exists>st. handshake_time out = Some st \<and> zero_time st = False)"
    by (induction ts arbitrary: w) (force split: option.splits if_splits)+
qed

section \<open>The bridge\<close>

lemma bridge_write_spec:
  "\<forall>b \<in> set bufs. off \<le> length b \<Longrightarrow>
   bridge_write bufs off = Some (map (\<lambda>p. (drop_bit 4 (hd p) = 6, p))
     (filter (\<lambda>p. p \<noteq> [] \<and> drop_bit 4 (hd p) \<in> {4, 6}) (map (drop off) bufs)))"
  by (induction bufs) (auto simp: subslice_from_def)

end
