(* ===== verification/Fakeguest.thy ===== *)
theory Fakeguest
  imports Icmp Uplink
begin

text \<open>
  The stand-in guest, \<^verbatim>\<open>helpers/fakeguest/main.go\<close>: its arguments, the ARP and echo
  frames it builds in fixed buffers, the frames it answers, and its ping mode with the wait
  for the ARP reply and for each echo reply. A panic of a slice or index is \<open>None\<close>. The
  lemmas give the bytes of every frame, show that answering never panics, and follow a ping
  between two such guests; the address tests rest on the helper's own parser.
\<close>


section \<open>Arguments\<close>

text \<open>\<^verbatim>\<open>mustMAC\<close> and \<^verbatim>\<open>mustIP\<close>: \<open>None\<close> ends the program.\<close>

definition must_mac :: "string \<Rightarrow> mac option" where
  "must_mac s = (case parse_mac s of
       None \<Rightarrow> None
     | Some hw \<Rightarrow> if length hw \<noteq> 6 then None else Some (mac_of hw))"

definition must_ip :: "string \<Rightarrow> ip4 option" where
  "must_ip s = to4 (parse_ip s)"

text \<open>The virtual network parameter the helper is started with.\<close>

definition helper_vnl :: "string \<Rightarrow> string" where
  "helper_vnl sock = ''slirp://'' @ (if sock \<noteq> '''' then ''socket='' @ sock else '''')"

section \<open>Frames\<close>

definition checksum :: "bytes \<Rightarrow> u16" where
  "checksum b = NOT (ucast (fold32 (be_sum b 0)))"

definition ip_checksum :: "bytes \<Rightarrow> u16" where
  "ip_checksum b = NOT (ucast (fold32 (be_sum b 0)))"

text \<open>\<^verbatim>\<open>icmpChecksum\<close> also clears the checksum field of its argument.\<close>

definition clear_and_sum :: "bytes \<Rightarrow> (bytes \<times> u16) option" where
  "clear_and_sum b = do {
     b \<leftarrow> store b 2 0;
     b \<leftarrow> store b 3 0;
     Some (b, ip_checksum b) }"

definition arp_frame :: "u16 \<Rightarrow> mac \<Rightarrow> ip4 \<Rightarrow> mac \<Rightarrow> ip4 \<Rightarrow> frame option" where
  "arp_frame op sha spa tha tpa = do {
     f \<leftarrow> copy_into (replicate 42 0) 0 6 (mac_bytes tha);
     f \<leftarrow> copy_into f 6 12 (mac_bytes sha);
     f \<leftarrow> copy_into f 12 14 (put16 0x0806);
     f \<leftarrow> copy_into f 14 16 (put16 1);
     f \<leftarrow> copy_into f 16 18 (put16 0x0800);
     f \<leftarrow> store f 18 6;
     f \<leftarrow> store f 19 4;
     f \<leftarrow> copy_into f 20 22 (put16 op);
     f \<leftarrow> copy_into f 22 28 (mac_bytes sha);
     f \<leftarrow> copy_into f 28 32 (ip4_bytes spa);
     f \<leftarrow> copy_into f 32 38 (mac_bytes tha);
     copy_into f 38 42 (ip4_bytes tpa) }"

text \<open>The Ethernet header, and the slices \<^verbatim>\<open>f[14:34]\<close> and \<^verbatim>\<open>f[34:]\<close>, one after the other.\<close>

definition ping_payload :: "nat \<Rightarrow> bytes" where
  "ping_payload n = map (\<lambda>i. of_nat (97 + i mod 23)) [8..<n]"

definition icmp_echo_frame :: "mac \<Rightarrow> mac \<Rightarrow> ip4 \<Rightarrow> ip4 \<Rightarrow> u16 \<Rightarrow> frame option" where
  "icmp_echo_frame srcMAC dstMAC srcIP dstIP seq = do {
     eth \<leftarrow> copy_into (replicate 14 0) 0 6 (mac_bytes dstMAC);
     eth \<leftarrow> copy_into eth 6 12 (mac_bytes srcMAC);
     eth \<leftarrow> copy_into eth 12 14 (put16 0x0800);
     ip \<leftarrow> store (replicate 20 0) 0 0x45;
     ip \<leftarrow> store ip 1 0;
     ip \<leftarrow> copy_into ip 2 4 (put16 (of_nat (20 + 8 + 56)));
     ip \<leftarrow> store ip 8 64;
     ip \<leftarrow> store ip 9 1;
     ip \<leftarrow> copy_into ip 12 16 (ip4_bytes srcIP);
     ip \<leftarrow> copy_into ip 16 20 (ip4_bytes dstIP);
     ip \<leftarrow> copy_into ip 10 12 (put16 (checksum ip));
     icmp \<leftarrow> store (replicate (8 + 56) 0) 0 8;
     icmp \<leftarrow> copy_into icmp 4 6 (put16 1);
     icmp \<leftarrow> copy_into icmp 6 8 (put16 seq);
     icmp \<leftarrow> copy_into icmp 8 (length icmp) (ping_payload (length icmp));
     icmp \<leftarrow> copy_into icmp 2 4 (put16 (checksum icmp));
     Some (eth @ ip @ icmp) }"

section \<open>A minimal network card\<close>

text \<open>
  One frame of \<^verbatim>\<open>serveNIC\<close>, the bytes \<^verbatim>\<open>buf[:n]\<close>: the frame written back, if any.
\<close>

definition serve_arp :: "mac \<Rightarrow> ip4 \<Rightarrow> frame \<Rightarrow> frame option option" where
  "serve_arp myMAC myIP f =
     (if length f < 42 then Some None
      else do {
        op \<leftarrow> u16_at f 20;
        tpa \<leftarrow> subslice f 38 42;
        if op \<noteq> 1 \<or> tpa \<noteq> ip4_bytes myIP then Some None
        else do {
          sha \<leftarrow> subslice f 22 28;
          spa \<leftarrow> subslice f 28 32;
          r \<leftarrow> arp_frame 2 myMAC myIP (mac_of sha) (ip4_of spa);
          Some (Some r) } })"

definition echo_back :: "frame \<Rightarrow> nat \<Rightarrow> frame option" where
  "echo_back f ihl = do {
     a \<leftarrow> subslice f 6 12;
     reply \<leftarrow> copy_into f 0 6 a;
     a \<leftarrow> subslice f 0 6;
     reply \<leftarrow> copy_into reply 6 12 a;
     a \<leftarrow> subslice f 12 14;
     reply \<leftarrow> copy_into reply 12 14 a;
     a \<leftarrow> subslice f 30 34;
     reply \<leftarrow> copy_into reply 26 30 a;
     a \<leftarrow> subslice f 26 30;
     reply \<leftarrow> copy_into reply 30 34 a;
     reply \<leftarrow> store reply (14 + ihl) 0;
     reply \<leftarrow> store reply 24 0;
     reply \<leftarrow> store reply 25 0;
     ip \<leftarrow> subslice reply 14 (14 + ihl);
     reply \<leftarrow> copy_into reply 24 26 (put16 (ip_checksum ip));
     icmp \<leftarrow> subslice_from reply (14 + ihl);
     icmp \<leftarrow> store icmp 0 0;
     (icmp, c) \<leftarrow> clear_and_sum icmp;
     icmp \<leftarrow> copy_into icmp 2 4 (put16 c);
     Some (take (14 + ihl) reply @ icmp) }"

definition serve_ip :: "frame \<Rightarrow> frame option option" where
  "serve_ip f =
     (if length f < 38 then Some None
      else do {
        proto \<leftarrow> idx f 23;
        if proto \<noteq> 1 then Some None
        else do {
          b \<leftarrow> idx f 14;
          let ihl = unat (b AND 0xf) * 4;
          if length f < 14 + ihl + 8 then Some None
          else do {
            kind \<leftarrow> idx f (14 + ihl);
            if kind \<noteq> 8 then Some None
            else do { reply \<leftarrow> echo_back f ihl; Some (Some reply) } } } })"

definition serve_frame :: "mac \<Rightarrow> ip4 \<Rightarrow> frame \<Rightarrow> frame option option" where
  "serve_frame myMAC myIP f =
     (if length f < 14 then Some None
      else do {
        ty \<leftarrow> u16_at f 12;
        if ty = 0x0806 then serve_arp myMAC myIP f
        else if ty = 0x0800 then serve_ip f
        else Some None })"

section \<open>Pinging\<close>

text \<open>One turn of the ARP loop: the target's address learned from a frame, or what was known.\<close>

definition arp_turn :: "ip4 \<Rightarrow> frame option \<Rightarrow> bytes \<Rightarrow> bytes option" where
  "arp_turn target ev known = (case ev of
       None \<Rightarrow> Some known
     | Some f \<Rightarrow>
         if length f < 42 then Some known
         else do {
           ty \<leftarrow> u16_at f 12;
           op \<leftarrow> u16_at f 20;
           spa \<leftarrow> subslice f 28 32;
           if ty = 0x0806 \<and> op = 2 \<and> spa = ip4_bytes target then subslice f 6 12 else Some known })"

text \<open>
  The turns before the deadline; the result is the target's address, \<open>None\<close> inside when there
  was no reply in time.
\<close>

fun resolve_target :: "ip4 \<Rightarrow> frame option list \<Rightarrow> bytes option option" where
  "resolve_target target [] = Some None"
| "resolve_target target (ev # evs) = do {
     hw \<leftarrow> arp_turn target ev (replicate 6 0);
     if hw \<noteq> replicate 6 0 then Some (Some hw) else resolve_target target evs }"

text \<open>Is a frame the answer to the ping? \<open>None\<close> is a panic.\<close>

definition ping_match :: "ip4 \<Rightarrow> frame \<Rightarrow> bool option" where
  "ping_match target f =
     (if length f < 38 then Some False
      else do {
        ty \<leftarrow> u16_at f 12;
        src \<leftarrow> subslice f 26 30;
        if ty \<noteq> 0x0800 \<or> src \<noteq> ip4_bytes target then Some False
        else do {
          b \<leftarrow> idx f 14;
          kind \<leftarrow> idx f (14 + unat (b AND 0xf) * 4);
          Some (kind = 0) } })"

text \<open>
  Waiting for one answer: frames, and at last the timer, which is \<open>None\<close>. The result says
  whether the answer came; inside \<open>None\<close> it is still waiting.
\<close>

fun await_echo :: "ip4 \<Rightarrow> frame option list \<Rightarrow> bool option option" where
  "await_echo target [] = Some None"
| "await_echo target (None # evs) = Some (Some False)"
| "await_echo target (Some f # evs) = do {
     m \<leftarrow> ping_match target f;
     if m then Some (Some True) else await_echo target evs }"

definition max_int :: "int \<Rightarrow> int \<Rightarrow> int" where
  "max_int a b = (if a > b then a else b)"

text \<open>Packets transmitted, received, and the loss in percent, from the outcome of each ping.\<close>

definition ping_statistics :: "int \<Rightarrow> bool list \<Rightarrow> int \<times> int \<times> int" where
  "ping_statistics n got = (
     let lost = int (length (filter Not got)) in (n, n - lost, lost * 100 div max_int n 1))"

definition mac_str :: "mac \<Rightarrow> string" where
  "mac_str m = hw_string (mac_bytes m)"


section \<open>What the frames are\<close>

lemma checksum_eq: "checksum = icmp_checksum" "ip_checksum = icmp_checksum"
  by (rule ext, simp only: checksum_def ip_checksum_def icmp_checksum_def)+

lemma icmp_checksum_ones:
  assumes "length b \<le> 131070"
  shows "icmp_checksum b = NOT (of_nat (ones_sum (words_sum b)))"
proof (rule unsigned_word_eqI)
  show "unat (icmp_checksum b) = unat (NOT (of_nat (ones_sum (words_sum b))) :: u16)"
    by (simp add: icmp_checksum_value [OF assms] unat_not16)
qed

definition arp_bytes :: "u16 \<Rightarrow> mac \<Rightarrow> ip4 \<Rightarrow> mac \<Rightarrow> ip4 \<Rightarrow> frame" where
  "arp_bytes op sha spa tha tpa =
     mac_bytes tha @ mac_bytes sha @ put16 0x0806 @ put16 1 @ put16 0x0800 @ [6, 4] @ put16 op @
     mac_bytes sha @ ip4_bytes spa @ mac_bytes tha @ ip4_bytes tpa"

lemma arp_frame_bytes: "arp_frame op sha spa tha tpa = Some (arp_bytes op sha spa tha tpa)"
proof -
  have z: "replicate 42 (0 :: byte) = [0, 0, 0, 0, 0, 0, 0, 0, 0, 0, 0, 0, 0, 0, 0, 0, 0, 0, 0, 0, 0,
      0, 0, 0, 0, 0, 0, 0, 0, 0, 0, 0, 0, 0, 0, 0, 0, 0, 0, 0, 0, 0]"
    by (simp add: numeral_eq_Suc)
  show ?thesis
    by (cases sha; cases spa; cases tha; cases tpa)
      (simp add: arp_frame_def arp_bytes_def z copy_into_def store_def put16_def)
qed

lemma eth_bytes:
  "do { eth \<leftarrow> copy_into (replicate 14 0) 0 6 (mac_bytes d); eth \<leftarrow> copy_into eth 6 12 (mac_bytes s);
        copy_into eth 12 14 (put16 0x0800) } = Some (mac_bytes d @ mac_bytes s @ put16 0x0800)"
proof -
  have z: "replicate 14 (0 :: byte) = [0, 0, 0, 0, 0, 0, 0, 0, 0, 0, 0, 0, 0, 0]" by (simp add: numeral_eq_Suc)
  show ?thesis by (cases d; cases s) (simp add: z copy_into_def put16_def)
qed

definition ping_fields :: "ip4 \<Rightarrow> ip4 \<Rightarrow> ip_fields" where
  "ping_fields src dst = \<lparr>if_total = 84, if_ttl = 64, if_proto = 1, if_src = src, if_dst = dst\<rparr>"

lemma ip_bytes:
  "do { ip \<leftarrow> store (replicate 20 0) 0 0x45; ip \<leftarrow> store ip 1 0; ip \<leftarrow> copy_into ip 2 4 (put16 (of_nat (20 + 8 + 56)));
        ip \<leftarrow> store ip 8 64; ip \<leftarrow> store ip 9 1; ip \<leftarrow> copy_into ip 12 16 (ip4_bytes src);
        ip \<leftarrow> copy_into ip 16 20 (ip4_bytes dst); copy_into ip 10 12 (put16 (checksum ip)) } =
   Some (ip_checked (ping_fields src dst))"
proof -
  have z: "replicate 20 (0 :: byte) = [0, 0, 0, 0, 0, 0, 0, 0, 0, 0, 0, 0, 0, 0, 0, 0, 0, 0, 0, 0]"
    by (simp add: numeral_eq_Suc)
  have h: "ip_header (ping_fields src dst) = [0x45, 0] @ put16 84 @ [0, 0, 0, 0, 64, 1, 0, 0] @ ip4_bytes src @ ip4_bytes dst"
    by (simp add: ip_header_def ping_fields_def)
  have c: "checksum (ip_header (ping_fields src dst)) = NOT (of_nat (ones_sum (words_sum (ip_header (ping_fields src dst)))))"
    by (simp add: checksum_eq icmp_checksum_ones)
  have "do { ip \<leftarrow> store (replicate 20 0) 0 0x45; ip \<leftarrow> store ip 1 0; ip \<leftarrow> copy_into ip 2 4 (put16 (of_nat (20 + 8 + 56)));
        ip \<leftarrow> store ip 8 64; ip \<leftarrow> store ip 9 1; ip \<leftarrow> copy_into ip 12 16 (ip4_bytes src);
        ip \<leftarrow> copy_into ip 16 20 (ip4_bytes dst); copy_into ip 10 12 (put16 (checksum ip)) } =
      Some ([0x45, 0] @ put16 84 @ [0, 0, 0, 0, 64, 1] @
        put16 (checksum ([0x45, 0] @ put16 84 @ [0, 0, 0, 0, 64, 1, 0, 0] @ ip4_bytes src @ ip4_bytes dst)) @
        ip4_bytes src @ ip4_bytes dst)"
    by (cases src; cases dst) (simp add: z copy_into_def store_def put16_def)
  also have "\<dots> = Some (ip_checked (ping_fields src dst))"
    unfolding h [symmetric] c by (simp add: ip_checked_def ping_fields_def)
  finally show ?thesis .
qed

lemma echo_bytes:
  "do { icmp \<leftarrow> store (replicate (8 + 56) 0) 0 8; icmp \<leftarrow> copy_into icmp 4 6 (put16 1); icmp \<leftarrow> copy_into icmp 6 8 (put16 seq);
        icmp \<leftarrow> copy_into icmp 8 (length icmp) (ping_payload (length icmp)); copy_into icmp 2 4 (put16 (checksum icmp)) } =
   Some (icmp_message 8 1 seq (ping_payload 64))"
proof -
  have l: "length (ping_payload 64) = 56" by (simp add: ping_payload_def)
  obtain u where u: "store (replicate 64 0) 0 8 = Some u" "length u = 64" by (simp add: store_def)
  obtain v where v: "copy_into u 4 6 (put16 1) = Some v" "length v = 64" using u(2) by (simp add: copy_into_exact)
  obtain w where w: "copy_into v 6 8 (put16 seq) = Some w" "length w = 64" using v(2) by (simp add: copy_into_exact)
  obtain x where x: "copy_into w 8 64 (ping_payload 64) = Some x" "length x = 64"
    using w(2) l by (simp add: copy_into_exact)
  from fill_icmp_message [of 8 1 seq "ping_payload 64"] show ?thesis
    by (simp add: fill_icmp_def icmpv4_min_def l u v w x checksum_eq)
qed

lemma icmp_echo_frame_bytes:
  "icmp_echo_frame s d a b seq =
     Some (mac_bytes d @ mac_bytes s @ put16 0x0800 @ ip_checked (ping_fields a b) @ icmp_message 8 1 seq (ping_payload 64))"
proof -
  have assoc: "icmp_echo_frame s d a b seq = do {
     eth \<leftarrow> do { eth \<leftarrow> copy_into (replicate 14 0) 0 6 (mac_bytes d); eth \<leftarrow> copy_into eth 6 12 (mac_bytes s);
        copy_into eth 12 14 (put16 0x0800) };
     ip \<leftarrow> do { ip \<leftarrow> store (replicate 20 0) 0 0x45; ip \<leftarrow> store ip 1 0; ip \<leftarrow> copy_into ip 2 4 (put16 (of_nat (20 + 8 + 56)));
        ip \<leftarrow> store ip 8 64; ip \<leftarrow> store ip 9 1; ip \<leftarrow> copy_into ip 12 16 (ip4_bytes a);
        ip \<leftarrow> copy_into ip 16 20 (ip4_bytes b); copy_into ip 10 12 (put16 (checksum ip)) };
     icmp \<leftarrow> do { icmp \<leftarrow> store (replicate (8 + 56) 0) 0 8; icmp \<leftarrow> copy_into icmp 4 6 (put16 1); icmp \<leftarrow> copy_into icmp 6 8 (put16 seq);
        icmp \<leftarrow> copy_into icmp 8 (length icmp) (ping_payload (length icmp)); copy_into icmp 2 4 (put16 (checksum icmp)) };
     Some (eth @ ip @ icmp) }"
    unfolding icmp_echo_frame_def by (simp only: Option.bind_assoc)
  show ?thesis unfolding assoc eth_bytes ip_bytes echo_bytes by simp
qed


section \<open>What the card answers\<close>

lemma echo_back_explicit:
  "echo_back ([d0, d1, d2, d3, d4, d5, s0, s1, s2, s3, s4, s5, t0, t1, v, tos, l0, l1, i0, i1, f0, f1, ttl, pr, c0, c1,
      a0, a1, a2, a3, b0, b1, b2, b3, k, code, x0, x1] @ rest) 20 =
   Some ([s0, s1, s2, s3, s4, s5, d0, d1, d2, d3, d4, d5, t0, t1] @ [v, tos, l0, l1, i0, i1, f0, f1, ttl, pr] @
     put16 (ip_checksum [v, tos, l0, l1, i0, i1, f0, f1, ttl, pr, 0, 0, b0, b1, b2, b3, a0, a1, a2, a3]) @
     [b0, b1, b2, b3, a0, a1, a2, a3] @ [0, code] @ put16 (ip_checksum (0 # code # 0 # 0 # rest)) @ rest)"
  by (simp add: echo_back_def clear_and_sum_def copy_into_def store_def subslice_def subslice_from_def put16_def)

definition echo_frame :: "byte \<Rightarrow> mac \<Rightarrow> mac \<Rightarrow> ip_fields \<Rightarrow> u16 \<Rightarrow> u16 \<Rightarrow> bytes \<Rightarrow> frame" where
  "echo_frame kind d s ip eid seq payload =
     mac_bytes d @ mac_bytes s @ put16 0x0800 @ ip_checked ip @ icmp_message kind eid seq payload"

lemma ping_is_echo: "icmp_echo_frame s d a b seq = Some (echo_frame 8 d s (ping_fields a b) 1 seq (ping_payload 64))"
  by (simp add: icmp_echo_frame_bytes echo_frame_def)

lemma echo_back_answer:
  assumes "length payload \<le> 65000"
  shows "echo_back (echo_frame 8 d s ip eid seq payload) 20 =
    Some (echo_frame 0 s d (ip\<lparr>if_src := if_dst ip, if_dst := if_src ip\<rparr>) eid seq payload)"
proof -
  let ?ip = "ip\<lparr>if_src := if_dst ip, if_dst := if_src ip\<rparr>"
  have h: "NOT (of_nat (ones_sum (words_sum (ip_header ?ip)))) = ip_checksum (ip_header ?ip)"
    by (simp add: checksum_eq icmp_checksum_ones)
  have ck: "ip_checked ?ip = [0x45, 0] @ put16 (if_total ip) @ [0, 0, 0, 0, if_ttl ip, if_proto ip] @
      put16 (ip_checksum (ip_header ?ip)) @ ip4_bytes (if_dst ip) @ ip4_bytes (if_src ip)"
    unfolding ip_checked_def h by simp
  have m: "icmp_message 0 eid seq payload = icmp_body 0 (ip_checksum (icmp_body 0 0 eid seq payload)) eid seq payload"
    by (simp add: icmp_message_def checksum_eq)
  obtain c where c: "icmp_message 8 eid seq payload = icmp_body 8 c eid seq payload" by (simp add: icmp_message_def)
  obtain w where w: "ip_checked ip = [0x45, 0] @ put16 (if_total ip) @ [0, 0, 0, 0, if_ttl ip, if_proto ip] @
      put16 w @ ip4_bytes (if_src ip) @ ip4_bytes (if_dst ip)" by (simp add: ip_checked_def)
  obtain d0 d1 d2 d3 d4 d5 where d: "d = MAC d0 d1 d2 d3 d4 d5" by (cases d)
  obtain s0 s1 s2 s3 s4 s5 where s: "s = MAC s0 s1 s2 s3 s4 s5" by (cases s)
  obtain a0 a1 a2 a3 where a: "if_src ip = IP4 a0 a1 a2 a3" by (cases "if_src ip")
  obtain b0 b1 b2 b3 where b: "if_dst ip = IP4 b0 b1 b2 b3" by (cases "if_dst ip")
  note e = echo_back_explicit [of d0 d1 d2 d3 d4 d5 s0 s1 s2 s3 s4 s5 8 0 "0x45" 0 "ucast (drop_bit 8 (if_total ip))"
      "ucast (if_total ip)" 0 0 0 0 "if_ttl ip" "if_proto ip" "ucast (drop_bit 8 w)" "ucast w"
      a0 a1 a2 a3 b0 b1 b2 b3 8 0 "ucast (drop_bit 8 c)" "ucast c" "put16 eid @ put16 seq @ payload"]
  have f: "echo_frame 8 d s ip eid seq payload = [d0, d1, d2, d3, d4, d5, s0, s1, s2, s3, s4, s5, 8, 0,
      0x45, 0, ucast (drop_bit 8 (if_total ip)), ucast (if_total ip), 0, 0, 0, 0, if_ttl ip, if_proto ip,
      ucast (drop_bit 8 w), ucast w, a0, a1, a2, a3, b0, b1, b2, b3, 8, 0, ucast (drop_bit 8 c), ucast c] @
      put16 eid @ put16 seq @ payload"
    by (simp add: echo_frame_def c w icmp_body_def d s a b put16_def)
  show ?thesis
    unfolding f e unfolding echo_frame_def m ck
    by (simp add: icmp_body_def ip_header_def d s a b put16_def)
qed

lemma echo_frame_bytes:
  "length (echo_frame k d s ip eid seq payload) = 42 + length payload"
  "u16_at (echo_frame k d s ip eid seq payload) 12 = Some 0x0800"
  "idx (echo_frame k d s ip eid seq payload) 14 = Some 0x45"
  "idx (echo_frame k d s ip eid seq payload) 23 = Some (if_proto ip)"
  "subslice (echo_frame k d s ip eid seq payload) 26 30 = Some (ip4_bytes (if_src ip))"
  "idx (echo_frame k d s ip eid seq payload) 34 = Some k"
  by (simp_all add: echo_frame_def u16_at_def subslice_def idx_def nth_append ip_checked_def icmp_message_def icmp_body_def)

lemma ihl_45: "unat ((0x45 :: byte) AND 0xf) * 4 = 20"
  by simp

lemma serve_echo:
  assumes "if_proto ip = 1" "length payload \<le> 65000"
  shows "serve_frame me my (echo_frame 8 d s ip eid seq payload) =
    Some (Some (echo_frame 0 s d (ip\<lparr>if_src := if_dst ip, if_dst := if_src ip\<rparr>) eid seq payload))"
  using echo_back_answer [OF assms(2)] assms(1)
  by (simp add: serve_frame_def serve_ip_def echo_frame_bytes)

lemma match_echo:
  "ping_match target (echo_frame k d s ip eid seq payload) = Some (if_src ip = target \<and> k = 0)"
  by (simp add: ping_match_def echo_frame_bytes)

lemma arp_bytes_fields:
  "length (arp_bytes op sha spa tha tpa) = 42"
  "u16_at (arp_bytes op sha spa tha tpa) 12 = Some 0x0806"
  "u16_at (arp_bytes op sha spa tha tpa) 20 = Some op"
  "subslice (arp_bytes op sha spa tha tpa) 6 12 = Some (mac_bytes sha)"
  "subslice (arp_bytes op sha spa tha tpa) 22 28 = Some (mac_bytes sha)"
  "subslice (arp_bytes op sha spa tha tpa) 28 32 = Some (ip4_bytes spa)"
  "subslice (arp_bytes op sha spa tha tpa) 38 42 = Some (ip4_bytes tpa)"
  by (simp_all add: arp_bytes_def u16_at_def subslice_def)


lemma serve_arp_request:
  "serve_frame me my (arp_bytes 1 sha spa tha my) = Some (Some (arp_bytes 2 me my sha spa))"
  by (simp add: serve_frame_def serve_arp_def arp_bytes_fields arp_frame_bytes)

lemma arp_turn_reply: "arp_turn target (Some (arp_bytes 2 hw target tha tpa)) known = Some (mac_bytes hw)"
  by (simp add: arp_turn_def arp_bytes_fields)

lemma in_bounds:
  "i \<le> j \<Longrightarrow> j \<le> length b \<Longrightarrow> \<exists>b'. copy_into b i j src = Some b' \<and> length b' = length b"
  "n < length b \<Longrightarrow> \<exists>b'. store b n x = Some b' \<and> length b' = length b"
  "i \<le> j \<Longrightarrow> j \<le> length b \<Longrightarrow> \<exists>xs. subslice b i j = Some xs"
  "n \<le> length b \<Longrightarrow> \<exists>xs. subslice_from b n = Some xs \<and> length xs = length b - n"
  by (auto simp: copy_into_def store_def subslice_def subslice_from_def Let_def)

lemma echo_back_total:
  assumes n: "38 \<le> length f" and "14 + ihl + 8 \<le> length f"
  shows "\<exists>r. echo_back f ihl = Some r"
proof -
  obtain a1 a2 a3 a4 a5 where a: "subslice f 6 12 = Some a1" "subslice f 0 6 = Some a2" "subslice f 12 14 = Some a3"
      "subslice f 30 34 = Some a4" "subslice f 26 30 = Some a5"
    using n by (simp add: subslice_def)
  note c = in_bounds(1) and st = in_bounds(2)
  obtain r1 where r1: "copy_into f 0 6 a1 = Some r1" "length r1 = length f" using c [of 0 6 f a1] n by auto
  obtain r2 where r2: "copy_into r1 6 12 a2 = Some r2" "length r2 = length f" using c [of 6 12 r1 a2] n r1 by auto
  obtain r3 where r3: "copy_into r2 12 14 a3 = Some r3" "length r3 = length f" using c [of 12 14 r2 a3] n r2 by auto
  obtain r4 where r4: "copy_into r3 26 30 a4 = Some r4" "length r4 = length f" using c [of 26 30 r3 a4] n r3 by auto
  obtain r5 where r5: "copy_into r4 30 34 a5 = Some r5" "length r5 = length f" using c [of 30 34 r4 a5] n r4 by auto
  obtain r6 where r6: "store r5 (14 + ihl) 0 = Some r6" "length r6 = length f"
    using st [of "14 + ihl" r5 0] assms r5 by auto
  obtain r7 where r7: "store r6 24 0 = Some r7" "length r7 = length f" using st [of 24 r6 0] n r6 by auto
  obtain r8 where r8: "store r7 25 0 = Some r8" "length r8 = length f" using st [of 25 r7 0] n r7 by auto
  obtain h where h: "subslice r8 14 (14 + ihl) = Some h" using in_bounds(3) [of 14 "14 + ihl" r8] assms r8 by auto
  obtain r9 where r9: "copy_into r8 24 26 (put16 (ip_checksum h)) = Some r9" "length r9 = length f"
    using c [of 24 26 r8 "put16 (ip_checksum h)"] n r8 by auto
  obtain m where m: "subslice_from r9 (14 + ihl) = Some m" "8 \<le> length m"
    using in_bounds(4) [of "14 + ihl" r9] assms r9 by auto
  obtain m1 where m1: "store m 0 0 = Some m1" "length m1 = length m" using st [of 0 m 0] m(2) by (cases m) auto
  obtain m2 where m2: "store m1 2 0 = Some m2" "length m2 = length m" using st [of 2 m1 0] m m1 by auto
  obtain m3 where m3: "store m2 3 0 = Some m3" "length m3 = length m" using st [of 3 m2 0] m m2 by auto
  obtain m4 where m4: "copy_into m3 2 4 (put16 (ip_checksum m3)) = Some m4"
    using c [of 2 4 m3 "put16 (ip_checksum m3)"] m m3 by auto
  show ?thesis
    unfolding echo_back_def clear_and_sum_def a Option.bind.simps r1 r2 r3 r4 r5 r6 r7 r8 h r9 m m1 m2 m3 prod.case m4 by simp
qed

lemma serve_frame_total: "\<exists>r. serve_frame me my f = Some r"
proof (cases "length f < 14")
  case False
  have arp: "\<exists>r. serve_arp me my f = Some r"
    by (auto simp: serve_arp_def arp_frame_bytes bounds_simps)
  have "\<exists>r. serve_ip f = Some r"
  proof (cases "length f < 38")
    case False
    let ?ihl = "unat (f ! 14 AND 0xf) * 4"
    have i: "idx f 23 = Some (f ! 23)" "idx f 14 = Some (f ! 14)" using False by (simp_all add: idx_def)
    show ?thesis
    proof (cases "length f < 14 + ?ihl + 8")
      case True
      show ?thesis unfolding serve_ip_def i Let_def Option.bind.simps
        by (simp only: True False if_True if_False split: if_split) blast
    next
      case len: False
      then have k: "idx f (14 + ?ihl) = Some (f ! (14 + ?ihl))" by (simp add: idx_def)
      obtain r where r: "echo_back f ?ihl = Some r" using echo_back_total [of f ?ihl] False len by auto
      show ?thesis unfolding serve_ip_def i Let_def Option.bind.simps k r
        by (simp only: len False if_True if_False split: if_split) blast
    qed
  qed (simp add: serve_ip_def)
  with arp False show ?thesis by (auto simp: serve_frame_def bounds_simps)
qed (simp add: serve_frame_def)

section \<open>Properties\<close>

text \<open>C37: Two of these guests can ping each other: whatever arrives, the card never panics; the ARP
  request of one is answered by the owner of the address and by nobody else, and the answer
  teaches the asker the owner's MAC address; each echo request it then sends is answered with
  a frame back to it that has valid IP and ICMP checksums and that its own test takes for the
  answer.\<close>

theorem fakeguests_ping:
  assumes "hwB \<noteq> MAC 0 0 0 0 0 0"
  shows "(\<exists>r. serve_frame hwB ipB f = Some r) \<and>
    (\<exists>q a. arp_frame 1 hwA ipA (MAC 0xff 0xff 0xff 0xff 0xff 0xff) ipB = Some q \<and>
       serve_frame hwB ipB q = Some (Some a) \<and> resolve_target ipB [Some a] = Some (Some (mac_bytes hwB)) \<and>
       (ipC \<noteq> ipB \<longrightarrow> serve_frame hwC ipC q = Some None)) \<and>
    (\<exists>q a. icmp_echo_frame hwA hwB ipA ipB seq = Some q \<and> serve_frame hwB ipB q = Some (Some a) \<and>
       take 12 a = mac_bytes hwA @ mac_bytes hwB \<and>
       checksum_valid (take 20 (drop 14 a)) \<and> checksum_valid (drop 34 a) \<and>
       await_echo ipB [Some a] = Some (Some True))"
proof (intro conjI)
  show "\<exists>r. serve_frame hwB ipB f = Some r" by (rule serve_frame_total)
  have nz: "mac_bytes hwB \<noteq> replicate 6 0" using assms by (cases hwB) (auto simp: numeral_eq_Suc)
  have no: "serve_frame hwC ipC (arp_bytes 1 hwA ipA tha ipB) = Some None" if "ipC \<noteq> ipB" for tha
    using that by (simp add: serve_frame_def serve_arp_def arp_bytes_fields)
  from nz no show "\<exists>q a. arp_frame 1 hwA ipA (MAC 0xff 0xff 0xff 0xff 0xff 0xff) ipB = Some q \<and>
       serve_frame hwB ipB q = Some (Some a) \<and> resolve_target ipB [Some a] = Some (Some (mac_bytes hwB)) \<and>
       (ipC \<noteq> ipB \<longrightarrow> serve_frame hwC ipC q = Some None)"
    by (simp add: arp_frame_bytes serve_arp_request arp_turn_reply)
  have l: "length (ping_payload 64) \<le> 65000" by (simp add: ping_payload_def)
  let ?a = "echo_frame 0 hwA hwB (ping_fields ipB ipA) 1 seq (ping_payload 64)"
  have p: "(ping_fields ipA ipB)\<lparr>if_src := if_dst (ping_fields ipA ipB), if_dst := if_src (ping_fields ipA ipB)\<rparr> =
      ping_fields ipB ipA" "if_proto (ping_fields ipA ipB) = 1" "if_src (ping_fields ipB ipA) = ipB"
    by (simp_all add: ping_fields_def)
  have parts: "take 12 ?a = mac_bytes hwA @ mac_bytes hwB" "take 20 (drop 14 ?a) = ip_checked (ping_fields ipB ipA)"
    "drop 34 ?a = icmp_message 0 1 seq (ping_payload 64)"
    by (simp_all add: echo_frame_def)
  have v: "checksum_valid (take 20 (drop 14 ?a))" "checksum_valid (drop 34 ?a)"
    unfolding parts using l by (auto intro!: ip_checked_valid icmp_message_valid)
  have "serve_frame hwB ipB (echo_frame 8 hwB hwA (ping_fields ipA ipB) 1 seq (ping_payload 64)) = Some (Some ?a)"
    using serve_echo [OF p(2) l, of hwB ipB hwB hwA 1 seq] unfolding p(1) .
  with v parts(1) show "\<exists>q a. icmp_echo_frame hwA hwB ipA ipB seq = Some q \<and> serve_frame hwB ipB q = Some (Some a) \<and>
       take 12 a = mac_bytes hwA @ mac_bytes hwB \<and>
       checksum_valid (take 20 (drop 14 a)) \<and> checksum_valid (drop 34 a) \<and>
       await_echo ipB [Some a] = Some (Some True)"
    by (simp add: ping_is_echo match_echo p(3))
qed

lemma fakeguests_ping_witness:
  "\<exists>q a. icmp_echo_frame (MAC 2 0 0 0 0 1) (MAC 2 0 0 0 0 2) (IP4 10 0 2 42) (IP4 10 0 2 16) 1 = Some q \<and>
     serve_frame (MAC 2 0 0 0 0 2) (IP4 10 0 2 16) q = Some (Some a) \<and> await_echo (IP4 10 0 2 16) [Some a] = Some (Some True)"
  using fakeguests_ping [of "MAC 2 0 0 0 0 2" "IP4 10 0 2 16" "[]" "MAC 2 0 0 0 0 1" "IP4 10 0 2 42" "IP4 10 0 2 7" "MAC 2 0 0 0 0 3" 1]
  by auto

text \<open>
  Waiting for the answer panics on a frame from the target whose header length reaches past
  the frame's end.
\<close>

definition long_header_frame :: frame where
  "long_header_frame = replicate 12 0 @ [8, 0, 0x4f] @ replicate 11 0 @ ip4_bytes (IP4 10 0 2 16) @ replicate 8 0"

lemma ping_panics: "await_echo (IP4 10 0 2 16) [Some long_header_frame] = None"
proof -
  have "ping_match (IP4 10 0 2 16) long_header_frame = None"
    by (simp add: ping_match_def long_header_frame_def u16_at_def subslice_def idx_def nth_append)
  then show ?thesis by simp
qed

text \<open>The socket named with \<^verbatim>\<open>-socket\<close> is lost on the way to the helper.\<close>

lemma fakeguest_socket_lost:
  "cf_socket (apply_vnl (vnl_params (helper_vnl ''/tmp/switch'')) defaults) = ''''"
  by code_simp

section \<open>The program around the card\<close>

text \<open>
  \<^verbatim>\<open>main\<close>: the arguments, the socket pair and the helper process, whose end of the pair
  is descriptor 3; the helper's command line is part of the result.
\<close>

datatype guest_fatal = BadMac string | BadIp string | NoPair | HelperNotStarted

definition helper_argv :: "string \<Rightarrow> string list" where
  "helper_argv sock = [''--descr'', ''fakeguest'', ''seqpacket://3'', helper_vnl sock]"

definition guest_main :: "string \<Rightarrow> string \<Rightarrow> string \<Rightarrow> bool \<Rightarrow> (string list \<Rightarrow> bool) \<Rightarrow> guest_fatal + mac \<times> ip4 \<times> string list" where
  "guest_main hw ip sock pair spawn = (case must_mac hw of
       None \<Rightarrow> Inl (BadMac hw)
     | Some m \<Rightarrow> (case must_ip ip of
           None \<Rightarrow> Inl (BadIp ip)
         | Some a \<Rightarrow>
             if \<not> pair then Inl NoPair
             else let argv = helper_argv sock in
               if \<not> spawn argv then Inl HelperNotStarted else Inr (m, a, argv)))"

text \<open>
  \<^verbatim>\<open>serveNIC\<close>: the frames read, \<open>None\<close> being a failed read, and the frames written;
  the last part says that the loop has ended the program.
\<close>

fun serve_nic :: "mac \<Rightarrow> ip4 \<Rightarrow> frame option list \<Rightarrow> (frame list \<times> bool) option" where
  "serve_nic hw ip [] = Some ([], False)"
| "serve_nic hw ip (None # es) = Some ([], True)"
| "serve_nic hw ip (Some f # es) = do {
     out \<leftarrow> serve_frame hw ip f;
     (outs, e) \<leftarrow> serve_nic hw ip es;
     Some ((case out of None \<Rightarrow> [] | Some r \<Rightarrow> [r]) @ outs, e) }"

lemma serve_nic_total: "\<exists>outs e. serve_nic hw ip es = Some (outs, e) \<and> length outs \<le> length es"
proof (induction es)
  case (Cons x es)
  show ?case
  proof (cases x)
    case (Some f)
    obtain out where "serve_frame hw ip f = Some out" using serve_frame_total by blast
    with Cons Some show ?thesis by (cases out) auto
  qed (auto intro: exI [of _ True])
qed (auto intro: exI [of _ False])

text \<open>The helper reads from its command line the descriptor and the network it was given.\<close>

lemma helper_argv_parsed:
  "parse_args (helper_argv sock) = (''fakeguest'', 3, helper_vnl sock)"
proof -
  have "cut_prefix (helper_vnl sock) ''seqpacket://'' = None" "cut_prefix (helper_vnl sock) ''--descr'' = None"
    "\<not> has_prefix (helper_vnl sock) ''-''"
    by (simp_all add: helper_vnl_def cut_prefix_def has_prefix_def)
  moreover have "cut_prefix ''--descr'' ''seqpacket://'' = None" "cut_prefix ''--descr'' ''--descr'' = Some []"
    "cut_prefix ''seqpacket://3'' ''seqpacket://'' = Some ''3''" "atoi ''3'' = Some 3" "\<not> has_prefix [] ''=''"
    by code_simp+
  ultimately show ?thesis
    by (simp add: parse_args_def helper_argv_def parse_args_loop.simps)
qed

end
