(* ===== verification/Vdews.thy ===== *)
theory Vdews
  imports Wire GoText
begin

text \<open>
  The WebSocket bridge, \<^verbatim>\<open>helpers/vdews/main.go\<close>: the token in the client's address
  and the server's test of it, the two copy directions of \<^verbatim>\<open>pump\<close>, and the connect
  mode's listener with its accept loop, its watch of the socket file and the next turn of the
  main loop over \<^verbatim>\<open>BindOrConnect\<close>. The WebSocket library and the HTTP server are not
  modelled. The lemmas show that a token survives the address, that frames cross unchanged,
  and what the ways in which the watch can end lead to.
\<close>


section \<open>net/url\<close>

text \<open>
  \<^verbatim>\<open>QueryEscape\<close> and its inverse, the raw query of an address, and
  \<^verbatim>\<open>Query().Get\<close>: the value of the first pair with the key, pairs that do not decode
  or that contain a semicolon being skipped.
\<close>

definition hex_upper :: "nat \<Rightarrow> char" where
  "hex_upper d = ''0123456789ABCDEF'' ! d"

definition url_plain :: "char \<Rightarrow> bool" where
  "url_plain c \<longleftrightarrow> c \<in> set ''abcdefghijklmnopqrstuvwxyzABCDEFGHIJKLMNOPQRSTUVWXYZ0123456789-_.~''"

definition escape_char :: "char \<Rightarrow> string" where
  "escape_char c =
     (if url_plain c then [c]
      else if c = CHR '' '' then ''+''
      else let n = of_char c :: nat in [CHR ''%'', hex_upper (n div 16), hex_upper (n mod 16)])"

definition query_escape :: "string \<Rightarrow> string" where
  "query_escape s = concat (map escape_char s)"

fun query_unescape :: "string \<Rightarrow> string option" where
  "query_unescape [] = Some []"
| "query_unescape (c # s) =
     (if c = CHR ''%'' then
        (case s of
           a # b # r \<Rightarrow> do { x \<leftarrow> hex_digit a; y \<leftarrow> hex_digit b; t \<leftarrow> query_unescape r; Some (char_of (16 * x + y) # t) }
         | _ \<Rightarrow> None)
      else do { t \<leftarrow> query_unescape s; Some ((if c = CHR ''+'' then CHR '' '' else c) # t) })"

definition raw_query :: "string \<Rightarrow> string" where
  "raw_query url = (case cut_at CHR ''?'' (takeWhile (\<lambda>c. c \<noteq> CHR ''#'') url) of
       None \<Rightarrow> '''' | Some (_, q) \<Rightarrow> q)"

definition query_pair :: "string \<Rightarrow> (string \<times> string) option" where
  "query_pair part =
     (if CHR '';'' \<in> set part \<or> part = '''' then None
      else let (k, v) = (case cut_at CHR ''='' part of None \<Rightarrow> (part, '''') | Some kv \<Rightarrow> kv) in do {
        k \<leftarrow> query_unescape k;
        v \<leftarrow> query_unescape v;
        Some (k, v) })"

definition query_pairs :: "string \<Rightarrow> (string \<times> string) list" where
  "query_pairs q = List.map_filter query_pair (split_on CHR ''&'' q)"

definition query_get :: "string \<Rightarrow> string \<Rightarrow> string" where
  "query_get key q = (case map_of (query_pairs q) key of None \<Rightarrow> '''' | Some v \<Rightarrow> v)"

section \<open>The token\<close>

text \<open>The server's test of a request, and the address the client dials.\<close>

definition admits :: "string \<Rightarrow> string \<Rightarrow> bool" where
  "admits token url \<longleftrightarrow> \<not> (token \<noteq> '''' \<and> query_get ''token'' (raw_query url) \<noteq> token)"

definition dial_url :: "string \<Rightarrow> string \<Rightarrow> string" where
  "dial_url url token =
     (if token \<noteq> '''' then
        url @ (if CHR ''?'' \<in> set url then ''&'' else ''?'') @ ''token='' @ query_escape token
      else url)"

section \<open>Copying frames\<close>

text \<open>
  The two directions of \<^verbatim>\<open>pump\<close>: what is received, \<open>None\<close> being a failure, with the
  answer of the write that may follow. The result lists the frames written and says whether
  the direction has failed.
\<close>

fun ws_to_wire :: "(frame option \<times> bool) list \<Rightarrow> frame list \<times> bool" where
  "ws_to_wire [] = ([], False)"
| "ws_to_wire ((None, _) # es) = ([], True)"
| "ws_to_wire ((Some f, ok) # es) =
     (if f = [] then ws_to_wire es
      else if \<not> ok then ([], True)
      else (let (fs, e) = ws_to_wire es in (f # fs, e)))"

definition bridge_buf :: nat where "bridge_buf = 9254"

fun wire_to_ws :: "(frame option \<times> bool) list \<Rightarrow> frame list \<times> bool" where
  "wire_to_ws [] = ([], False)"
| "wire_to_ws ((None, _) # es) = ([], True)"
| "wire_to_ws ((Some f, ok) # es) =
     (let b = take bridge_buf f in
      if b = [] then wire_to_ws es
      else if \<not> ok then ([], True)
      else (let (fs, e) = wire_to_ws es in (b # fs, e)))"

text \<open>When one direction fails both sides are closed, and then the other fails.\<close>

definition pump_over :: "(frame option \<times> bool) list \<Rightarrow> (frame option \<times> bool) list \<Rightarrow> bool" where
  "pump_over ws wire \<longleftrightarrow> snd (ws_to_wire ws) \<or> snd (wire_to_ws wire)"

text \<open>
  The server's handler: a request without the token is refused; an admitted one joins the
  upstream switch and is pumped over, or ends when the switch cannot be joined.
\<close>

datatype served = Forbidden | UpstreamDown | BridgedTo nat

definition serve_ws :: "kernel \<Rightarrow> act list \<times> served" where
  "serve_ws K = (case unix_try_connect K of
       (tr, Inl e) \<Rightarrow> (tr, UpstreamDown)
     | (tr, Inr fd) \<Rightarrow> (tr, BridgedTo fd))"

definition serve_request :: "kernel \<Rightarrow> string \<Rightarrow> string \<Rightarrow> act list \<times> served" where
  "serve_request K token url = (if \<not> admits token url then ([], Forbidden) else serve_ws K)"

section \<open>The local listener\<close>

text \<open>
  \<^verbatim>\<open>acceptLoop\<close>: connections, each with whether the remote side could be dialled, until
  an accept fails. The results are the connections bridged and those closed again, and
  whether the loop has ended and closed its channel.
\<close>

fun accept_loop :: "(nat option \<times> bool) list \<Rightarrow> nat list \<times> nat list \<times> bool" where
  "accept_loop [] = ([], [], False)"
| "accept_loop ((None, _) # es) = ([], [], True)"
| "accept_loop ((Some c, dialled) # es) = (let (up, closed, e) = accept_loop es in
     if dialled then (c # up, closed, e) else (up, c # closed, e))"

datatype watch_event = LoopDone | PathStat "(u64 \<times> u64) option"

text \<open>
  \<^verbatim>\<open>watchListener\<close>: \<open>None\<close> is still watching, otherwise whether it closed the
  listener before it returned.
\<close>

fun watch_listener :: "(u64 \<times> u64) option \<Rightarrow> watch_event list \<Rightarrow> bool option" where
  "watch_listener None evs = Some False"
| "watch_listener (Some own) [] = None"
| "watch_listener (Some own) (LoopDone # evs) = Some False"
| "watch_listener (Some own) (PathStat cur # evs) =
     (if cur \<noteq> Some own then Some True else watch_listener (Some own) evs)"

text \<open>The main loop's next turn: a listener again, or the end of the program.\<close>

datatype rebind = Listening listener | BindFatal join_error | AlreadyListening

definition rebind_round :: "kernel \<Rightarrow> string \<Rightarrow> rebind" where
  "rebind_round K path = (case snd (unix_bind_or_connect K path 384) of
       Inl e \<Rightarrow> BindFatal e
     | Inr (Peer _) \<Rightarrow> AlreadyListening
     | Inr (Hub l) \<Rightarrow> Listening l)"

section \<open>Escaping\<close>

lemma hex_digit_upper: "d < 16 \<Longrightarrow> hex_digit (hex_upper d) = Some d"
proof -
  have "\<forall>d \<in> set [0..<16]. hex_digit (hex_upper d) = Some d" by code_simp
  then show "d < 16 \<Longrightarrow> hex_digit (hex_upper d) = Some d" by simp
qed

lemma hex_upper_plain: "d < 16 \<Longrightarrow> hex_upper d \<notin> set ''&=#?;''"
proof -
  have "\<forall>d \<in> set [0..<16]. hex_upper d \<notin> set ''&=#?;''" by code_simp
  then show "d < 16 \<Longrightarrow> hex_upper d \<notin> set ''&=#?;''" by simp
qed

lemma char_hex: "(of_char c :: nat) div 16 < 16" "(of_char c :: nat) mod 16 < 16"
  using nat_of_char_less_256 [of c] by (simp_all add: less_mult_imp_div_less)

lemma unescape_char: "query_unescape (escape_char c @ s) = map_option ((#) c) (query_unescape s)"
proof -
  have p: "\<not> url_plain CHR ''%''" "\<not> url_plain CHR ''+''" by code_simp+
  then have "url_plain c \<Longrightarrow> c \<noteq> CHR ''%'' \<and> c \<noteq> CHR ''+''" by auto
  moreover have "char_of (16 * ((of_char c :: nat) div 16) + of_char c mod 16) = c" by simp
  ultimately show ?thesis
    by (auto simp: escape_char_def Let_def hex_digit_upper char_hex map_option_case split: option.splits)
qed

lemma unescape_escape: "query_unescape (query_escape s) = Some s"
  by (induction s) (simp_all add: query_escape_def unescape_char)

lemma escape_chars: "c \<in> set (query_escape s) \<Longrightarrow> c \<notin> set ''&=#?;''"
proof -
  have "\<forall>c \<in> set ''&=#?;''. \<not> url_plain c" by code_simp
  then have "c \<in> set (escape_char x) \<Longrightarrow> c \<notin> set ''&=#?;''" for x
    using hex_upper_plain char_hex [of x] by (auto simp: escape_char_def Let_def split: if_splits)
  then show "c \<in> set (query_escape s) \<Longrightarrow> c \<notin> set ''&=#?;''" by (auto simp: query_escape_def)
qed


section \<open>The query the server reads\<close>

lemma split_on_append_sep: "split_on c (xs @ c # ys) = split_on c xs @ split_on c ys"
proof (induction xs)
  case (Cons x xs)
  then show ?case using split_on_nonempty [of c xs] by (auto split: list.splits)
qed simp

lemma cut_first: "c \<notin> set a \<Longrightarrow> cut_at c (a @ c # b) = Some (a, b)"
  by (simp add: cut_at_def takeWhile_tail dropWhile_append)

lemma cut_later: "c \<in> set a \<Longrightarrow> cut_at c (a @ b) = map_option (\<lambda>(x, y). (x, y @ b)) (cut_at c a)"
proof -
  assume c: "c \<in> set a"
  then have d: "dropWhile (\<lambda>x. x \<noteq> c) a \<noteq> []" by (auto simp: dropWhile_eq_Nil_conv)
  have "takeWhile (\<lambda>x. x \<noteq> c) (a @ b) = takeWhile (\<lambda>x. x \<noteq> c) a"
    using c by (simp add: takeWhile_append1)
  moreover have "dropWhile (\<lambda>x. x \<noteq> c) (a @ b) = dropWhile (\<lambda>x. x \<noteq> c) a @ b"
    using c by (simp add: dropWhile_append1)
  ultimately show ?thesis using c d by (simp add: cut_at_def)
qed

lemma raw_query_dial:
  assumes "CHR ''#'' \<notin> set url" "token \<noteq> ''''"
  shows "raw_query (dial_url url token) =
    (if CHR ''?'' \<in> set url then raw_query url @ ''&token='' @ query_escape token else ''token='' @ query_escape token)"
proof -
  have e: "CHR ''#'' \<notin> set (query_escape token)" using escape_chars [of "CHR ''#''" token] by auto
  have t: "takeWhile (\<lambda>c. c \<noteq> CHR ''#'') (dial_url url token) = dial_url url token"
    using assms e by (intro takeWhile_eq_all_conv [THEN iffD2]) (auto simp: dial_url_def)
  have u: "takeWhile (\<lambda>c. c \<noteq> CHR ''#'') url = url"
    using assms(1) by (intro takeWhile_eq_all_conv [THEN iffD2]) auto
  show ?thesis
  proof (cases "CHR ''?'' \<in> set url")
    case True
    then obtain a q where "cut_at CHR ''?'' url = Some (a, q)" by (simp add: cut_at_def)
    with True assms(2) cut_later [OF True, of "''&token='' @ query_escape token"] show ?thesis
      by (simp add: raw_query_def t u) (simp add: dial_url_def)
  next
    case False
    with assms(2) cut_first [OF False, of "''token='' @ query_escape token"] show ?thesis
      by (simp add: raw_query_def t) (simp add: dial_url_def)
  qed
qed

lemma token_pair: "query_pairs (''token='' @ query_escape token) = [(''token'', token)]"
proof -
  let ?e = "query_escape token"
  have n: "CHR ''&'' \<notin> set ?e" "CHR '';'' \<notin> set ?e"
    using escape_chars [of "CHR ''&''" token] escape_chars [of "CHR '';''" token] by auto
  have "split_on CHR ''&'' (''token='' @ ?e) = [''token='' @ ?e]" using n by (intro split_on_none) simp
  moreover have "cut_at CHR ''='' (''token='' @ ?e) = Some (''token'', ?e)"
    using cut_first [of "CHR ''=''" "''token''" ?e] by simp
  moreover have "query_unescape ''token'' = Some ''token''" by simp
  ultimately show ?thesis
    using n by (simp add: query_pairs_def query_pair_def unescape_escape List.map_filter_def)
qed

text \<open>C38: A client with the server's token is let in, and one with another token is not: whatever bytes
  the token is made of, and with or without a query in the client's address, as long as that
  has no fragment and no token of its own, the server reads back exactly the token the client
  put into the address.\<close>

theorem token_accepted:
  assumes "CHR ''#'' \<notin> set url" and "''token'' \<notin> fst ` set (query_pairs (raw_query url))"
    and "token \<noteq> ''''"
  shows "query_get ''token'' (raw_query (dial_url url token)) = token \<and>
    (admits server (dial_url url token) \<longleftrightarrow> server = '''' \<or> server = token)"
proof -
  have "map_of (query_pairs (raw_query (dial_url url token))) ''token'' = Some token"
  proof (cases "CHR ''?'' \<in> set url")
    case True
    have "query_pairs (raw_query url @ ''&token='' @ query_escape token) =
        query_pairs (raw_query url) @ query_pairs (''token='' @ query_escape token)"
      using split_on_append_sep [of "CHR ''&''" "raw_query url" "''token='' @ query_escape token"]
      by (simp add: query_pairs_def List.map_filter_def)
    moreover have "map_of (query_pairs (raw_query url)) ''token'' = None"
      using assms(2) by (simp add: map_of_eq_None_iff)
    ultimately show ?thesis
      using True assms token_pair [of token] by (simp add: raw_query_dial map_add_def)
  next
    case False
    with assms token_pair [of token] show ?thesis by (simp add: raw_query_dial)
  qed
  then show ?thesis by (auto simp: query_get_def admits_def)
qed

lemma token_accepted_witness:
  "admits ''a&b=#c d'' (dial_url ''wss://h.example/vde?v=1'' ''a&b=#c d'')"
proof -
  have "''token'' \<notin> fst ` set (query_pairs (raw_query ''wss://h.example/vde?v=1''))" by code_simp
  from token_accepted [OF _ this, of "''a&b=#c d''" "''a&b=#c d''"] show ?thesis by simp
qed

section \<open>Frames across the bridge\<close>

lemma wire_to_ws_ok:
  "\<forall>f \<in> set fs. f \<noteq> [] \<and> length f \<le> bridge_buf \<Longrightarrow> wire_to_ws (map (\<lambda>f. (Some f, True)) fs) = (fs, False)"
  by (induction fs) (auto simp: bridge_buf_def)

lemma ws_to_wire_ok: "\<forall>f \<in> set fs. f \<noteq> [] \<Longrightarrow> ws_to_wire (map (\<lambda>f. (Some f, True)) fs) = (fs, False)"
  by (induction fs) auto

text \<open>A frame the switch sends fits the bridge, so the two directions back to back are the identity.\<close>

lemma bridge_transparent:
  assumes "\<forall>f \<in> set fs. f \<noteq> [] \<and> length f \<le> frame_max"
  shows "ws_to_wire (map (\<lambda>f. (Some f, True)) (fst (wire_to_ws (map (\<lambda>f. (Some f, True)) fs)))) = (fs, False)"
proof -
  have "\<forall>f \<in> set fs. f \<noteq> [] \<and> length f \<le> bridge_buf" using assms by (auto simp: frame_max_def bridge_buf_def)
  then show ?thesis using assms by (simp add: wire_to_ws_ok ws_to_wire_ok)
qed

section \<open>Rebinding\<close>

text \<open>A replaced socket file is rebound, a failed accept is not survived: the watch closes the
  listener only when the path names something else, never removing that, and the next turn
  listens again if nobody answers and binding works; but when the accept loop ends first the
  watch returns with the listener open, the next turn's connect reaches that very listener,
  and the program ends.\<close>

theorem rebind_outcomes:
  assumes "bound_id K0 = Some own" and "snd (unix_bind_or_connect K0 path 384) = Inr (Hub l)"
    and "watch_listener (Some own) (map PathStat stats @ [LoopDone]) = Some closed"
    and "\<And>k. socket_ok K k"
  shows "(closed \<longleftrightarrow> (\<exists>cur \<in> set stats. cur \<noteq> Some own)) \<and>
    (\<forall>cur. cur \<noteq> Some own \<longrightarrow> listener_close l cur = False) \<and>
    ((\<forall>k. connect_ok K k = False) \<and> bind_ok K \<and> listen_ok K \<longrightarrow> (\<exists>l'. rebind_round K path = Listening l')) \<and>
    (connect_ok K 0 \<longrightarrow> rebind_round K path = AlreadyListening)"
proof (intro conjI)
  show "closed \<longleftrightarrow> (\<exists>cur \<in> set stats. cur \<noteq> Some own)"
    using assms(3) by (induction stats) (auto split: if_splits)
  have "ln_ino l = fst own \<and> ln_dev l = snd own"
    using assms(1,2) by (auto simp: unix_bind_or_connect_def bind_listen_def Let_def split: if_splits prod.splits)
  then show "\<forall>cur. cur \<noteq> Some own \<longrightarrow> listener_close l cur = False"
    by (auto simp: listener_close_def split: option.splits)
  show "(\<forall>k. connect_ok K k = False) \<and> bind_ok K \<and> listen_ok K \<longrightarrow> (\<exists>l'. rebind_round K path = Listening l')"
    using assms(4) by (auto simp: rebind_round_def unix_bind_or_connect_def bind_listen_def Let_def)
  show "connect_ok K 0 \<longrightarrow> rebind_round K path = AlreadyListening"
    using assms(4) by (simp add: rebind_round_def unix_bind_or_connect_def)
qed

definition own_kernel :: kernel where
  "own_kernel = fresh_kernel\<lparr>connect_ok := (\<lambda>_. True)\<rparr>"

lemma rebind_outcomes_witness:
  "watch_listener (Some (11, 22)) (map PathStat [] @ [LoopDone]) = Some False \<and>
   rebind_round own_kernel ''/tmp/vde-remote.sock'' = AlreadyListening"
proof -
  have b: "bound_id fresh_kernel = Some (11, 22)" by (simp add: fresh_kernel_def)
  obtain l where l: "snd (unix_bind_or_connect fresh_kernel ''/tmp/vde-remote.sock'' 384) = Inr (Hub l)"
    by (simp add: unix_bind_or_connect_def bind_listen_def fresh_kernel_def Let_def)
  have w: "watch_listener (Some (11, 22)) (map PathStat [] @ [LoopDone]) = Some False" by simp
  have s: "\<And>k. socket_ok own_kernel k" and c: "connect_ok own_kernel 0"
    by (simp_all add: own_kernel_def fresh_kernel_def)
  from rebind_outcomes [OF b l w s] c w show ?thesis by blast
qed

text \<open>Only an admitted request touches the switch, and only a bridged one leaves a descriptor open.\<close>

lemma serve_request_guarded:
  assumes "serve_request K token url = (tr, res)"
  shows "res = Forbidden \<longleftrightarrow> \<not> admits token url" and "res = Forbidden \<Longrightarrow> tr = []"
    and "left_open tr = (case res of BridgedTo fd \<Rightarrow> {fd} | _ \<Rightarrow> {})"
  using assms
  by (auto simp: serve_request_def serve_ws_def unix_try_connect_def left_open_def split: if_splits)

end
