(* ===== verification/Instance.thy ===== *)
theory Instance
  imports WgTunnel Peering
begin

text \<open>
  \<^verbatim>\<open>runInstance\<close> of \<^verbatim>\<open>main.go\<close>: the parts an instance is built from for each uplink, in
  the order the code builds them, what it does when it ends, and the way of a guest's frame
  through the running instance: from the guest's wire through the switch into the uplink
  sink, and the answer back through the switch to the guest. \<open>None\<close> is a panic, \<open>Inl\<close> a
  message on the way out of the process.
\<close>

section \<open>The probe of a directory\<close>

datatype probe_effect = ProbeCreated string | ProbeRemoved string

text \<open>
  \<^verbatim>\<open>dirWritable\<close>: \<open>stat\<close> says whether the path exists and is a directory, \<open>create\<close>
  whether a file can be opened there.
\<close>

definition dir_writable :: "(string \<Rightarrow> bool option) \<Rightarrow> (string \<Rightarrow> bool) \<Rightarrow> string \<Rightarrow> bool \<times> probe_effect list" where
  "dir_writable stat create dir =
     (let probe = path_join dir ''.vde-probe'' in
      if stat dir \<noteq> Some True then (False, [])
      else if \<not> create probe then (False, [])
      else (True, [ProbeCreated probe, ProbeRemoved probe]))"

section \<open>The parts of an instance\<close>

datatype fatal =
    NoGuestSocket
  | TapFailed tap_error
  | BadUplink string
  | NatFailed nat_error
  | WireguardFailed load_failure

text \<open>
  What the host and the libraries answer while an instance is built: opening the tap
  device, the netstack's interface and addresses, the resolver file, the wireguard library,
  the tunnel's file, the socket for relayed pings, and the listening sockets.
\<close>

record host =
  h_tap_open :: "int option"
  h_tap_ioctl :: "bytes \<times> u16 \<Rightarrow> bytes option"
  h_nic :: bool
  h_assign :: "bytes \<Rightarrow> bool"
  h_resolv :: "string option"
  h_wg :: wg_env
  h_conf_path :: "path_error + string"
  h_read :: "string \<Rightarrow> string option"
  h_echo :: "echo_error + (int \<times> u16)"
  h_listen :: listens

text \<open>
  The netstack uplink: the stack with its NAT, the tunnel if one is attached, and the
  uplink sink with DHCP server, lease pool and ping relay. Without a DHCP server the sink's
  pool is the empty one and nothing reads it.
\<close>

record 'sub netstack =
  ns_stack :: "'sub wg_stack"
  ns_tunnel :: "tunnel option"
  ns_pool :: "pool option"
  ns_sink :: uplink_sink

datatype 'sub uplink_dev = Blackhole | Tap int string | Netstack "'sub netstack"

definition nat_options_of :: "config \<Rightarrow> nat_options" where
  "nat_options_of cfg = \<lparr>no_gateway = cf_gateway cfg, no_nameserver = cf_nameserver cfg,
     no_network = cf_network cfg, no_ipv6 = cf_ipv6 cfg, no_mtu = cf_mtu cfg\<rparr>"

definition dhcp_server_of :: "config \<Rightarrow> dhcp_server" where
  "dhcp_server_of cfg = new_dhcp_server \<lparr>do_network = cf_network cfg, do_gateway = cf_gateway cfg,
     do_nameserver = cf_nameserver cfg, do_mtu = cf_mtu cfg, do_lease_time = 0, do_search = []\<rparr> vde_mac"

definition sink_of :: "host \<Rightarrow> config \<Rightarrow> pool option \<Rightarrow> endpoint \<Rightarrow> uplink_sink" where
  "sink_of h cfg pool ep =
     \<lparr>ul_dhcp = map_option (\<lambda>_. dhcp_server_of cfg) pool,
      ul_pool = (case pool of Some p \<Rightarrow> p | None \<Rightarrow> new_pool [] 0),
      ul_icmp = new_icmp_relay vde_mac (h_echo h), ul_link = ep, ul_own = own_addrs cfg\<rparr>"

text \<open>The tunnel is layered on the NAT only for the wireguard uplink.\<close>

definition layer_tunnel :: "'sub net_ops \<Rightarrow> host \<Rightarrow> config \<Rightarrow> bool \<Rightarrow> 'sub wg_stack
    \<Rightarrow> fatal + 'sub wg_stack \<times> tunnel option" where
  "layer_tunnel P h cfg isWG s =
     (if isWG then
        (case start_tunnel P (h_wg h) cfg (h_conf_path h) (h_read h) s of
           Inl e \<Rightarrow> Inl (WireguardFailed e)
         | Inr r \<Rightarrow> Inr r)
      else Inr (s, None))"

definition build_netstack :: "'sub net_ops \<Rightarrow> host \<Rightarrow> config \<Rightarrow> bool \<Rightarrow> (mac \<times> ip4) list \<Rightarrow> endpoint
    \<Rightarrow> (fatal + 'sub netstack) option" where
  "build_netstack P h cfg isWG seed ep =
     (case new_nat P (h_nic h) (h_assign h) (h_resolv h) (nat_options_of cfg) of
        Inl e \<Rightarrow> Some (Inl (NatFailed e))
      | Inr n \<Rightarrow> do {
          pool \<leftarrow> hub_pool cfg seed;
          (case layer_tunnel P h cfg isWG (nat_stack (ep_mtu ep) n) of
             Inl e \<Rightarrow> Some (Inl e)
           | Inr (s, t) \<Rightarrow> Some (Inr \<lparr>ns_stack = s, ns_tunnel = t, ns_pool = pool, ns_sink = sink_of h cfg pool ep\<rparr>)) })"

definition build_uplink :: "'sub net_ops \<Rightarrow> host \<Rightarrow> config \<Rightarrow> (mac \<times> ip4) list \<Rightarrow> endpoint
    \<Rightarrow> (fatal + 'sub uplink_dev) option" where
  "build_uplink P h cfg seed ep = (case uplink_kind_of (cf_uplink cfg) of
       NoUplink \<Rightarrow> Some (Inr Blackhole)
     | TapUplink name \<Rightarrow>
         (case snd (tap_open (h_tap_open h) (h_tap_ioctl h) name) of
            Inl e \<Rightarrow> Some (Inl (TapFailed e))
          | Inr (fd, chosen) \<Rightarrow> Some (Inr (Tap fd chosen)))
     | UnknownUplink u \<Rightarrow> Some (Inl (BadUplink u))
     | kind \<Rightarrow> map_option (map_sum id Netstack) (build_netstack P h cfg (kind = Wireguard) seed ep))"

section \<open>A running instance\<close>

text \<open>The two sinks of an instance's switch; peers' connections have the numbers from 2 on.\<close>

definition uplink_snk :: nat where "uplink_snk = 0"
definition guest_snk :: nat where "guest_snk = 1"

record 'sub running =
  rn_uplink :: "'sub uplink_dev"
  rn_link :: endpoint
  rn_switch :: switch
  rn_accepting :: bool
  rn_forwards :: "(effect list \<times> (start_error + nat list)) option"

text \<open>Port rules exist only over a NAT; when they do not start the instance goes on.\<close>

definition start_forwards :: "host \<Rightarrow> config \<Rightarrow> 'sub uplink_dev \<Rightarrow> (effect list \<times> (start_error + nat list)) option" where
  "start_forwards h cfg u = (case u of
       Netstack ns \<Rightarrow>
         if cf_portfwd cfg then Some (start (h_listen h) cfg (portfwd_fallback cfg (ns_pool ns))) else None
     | _ \<Rightarrow> None)"

text \<open>From \<^verbatim>\<open>SetSink\<close> on, packets of the netstack go into the switch.\<close>

definition plug_link :: "'sub uplink_dev \<Rightarrow> 'sub uplink_dev" where
  "plug_link u = (case u of
       Netstack ns \<Rightarrow> Netstack (ns\<lparr>ns_sink := (ns_sink ns)\<lparr>ul_link := set_sink (ul_link (ns_sink ns))\<rparr>\<rparr>)
     | _ \<Rightarrow> u)"

definition run_instance :: "'sub net_ops \<Rightarrow> host \<Rightarrow> config \<Rightarrow> bool \<Rightarrow> (mac \<times> ip4) list \<Rightarrow> endpoint \<Rightarrow> switch
    \<Rightarrow> (fatal + 'sub running) option" where
  "run_instance P h cfg hub seed ep sw = map_option (map_sum id
       (\<lambda>u. \<lparr>rn_uplink = plug_link u, rn_link = set_sink ep, rn_switch = instance_switch uplink_snk guest_snk sw,
             rn_accepting = hub, rn_forwards = start_forwards h cfg u\<rparr>))
     (build_uplink P h cfg seed ep)"

text \<open>
  \<^verbatim>\<open>main\<close> without a switch: the arguments, the configuration that was loaded, the link
  device, and one instance that is no hub.
\<close>

definition start_standalone :: "'sub net_ops \<Rightarrow> host \<Rightarrow> string list \<Rightarrow> config \<Rightarrow> (fatal + 'sub running) option" where
  "start_standalone P h argv loaded = (case parse_args argv of (descr, fd, vnl) \<Rightarrow>
     if fd < 0 then Some (Inl NoGuestSocket)
     else
       let cfg = apply_vnl (vnl_params vnl) loaded in
       run_instance P h cfg False [] (new_endpoint fd (link_mtu (cf_mtu cfg)) vde_mac) new_switch)"

section \<open>The end of an instance\<close>

datatype closing = CloseNat | CloseTunnel | CloseTap int | CloseListener | ReleaseSeat | ExitProcess

definition close_nat :: "'sub uplink_dev \<Rightarrow> closing list" where
  "close_nat u = (case u of Netstack _ \<Rightarrow> [CloseNat] | _ \<Rightarrow> [])"

definition shutdown_uplink :: "'sub uplink_dev \<Rightarrow> closing list" where
  "shutdown_uplink u = (case u of
       Blackhole \<Rightarrow> []
     | Tap fd _ \<Rightarrow> [CloseTap fd]
     | Netstack ns \<Rightarrow> (if ns_tunnel ns \<noteq> None then [CloseTunnel] else []) @ [CloseNat])"

text \<open>After the event that ends \<^verbatim>\<open>waitShutdown\<close>; \<open>[]\<close> is an instance that is still running.\<close>

definition shutdown :: "shutdown_event list \<Rightarrow> 'sub running \<Rightarrow> closing list" where
  "shutdown events r = (case wait_shutdown events of
       None \<Rightarrow> []
     | Some _ \<Rightarrow> close_nat (rn_uplink r) @ shutdown_uplink (rn_uplink r)
         @ (if rn_accepting r then [CloseListener, ReleaseSeat] else []) @ [ExitProcess])"

section \<open>Frames through a running instance\<close>

text \<open>
  The synchronous sends of one \<^verbatim>\<open>Forward\<close>: a frame for the uplink goes into its sink,
  whose answer is forwarded from the uplink port; every other frame leaves by its port's
  sink and is listed with it. \<open>t1\<close> to \<open>t4\<close> are clock readings of the relay and of the
  answer's forwarding.
\<close>

fun deliver :: "'m dhcp_ops \<Rightarrow> hdr_ops \<Rightarrow> int \<Rightarrow> int \<Rightarrow> int \<Rightarrow> int \<Rightarrow> bool \<Rightarrow> (frame \<Rightarrow> bool) \<Rightarrow> sends \<Rightarrow> switch
    \<Rightarrow> uplink_sink \<Rightarrow> (switch \<times> uplink_sink \<times> sends) option" where
  "deliver D G t1 t2 t3 t4 ok consume [] sw u = Some (sw, u, [])"
| "deliver D G t1 t2 t3 t4 ok consume ((n, f) # outs) sw u =
     (if p_sink (objs sw ! n) = uplink_snk then do {
        (u, res) \<leftarrow> uplink_send D G t1 t2 ok consume f u;
        (sw, back) \<leftarrow> (case res of Answered reply \<Rightarrow> forward t3 t4 uplink reply sw | _ \<Rightarrow> Some (sw, []));
        (sw, u, rest) \<leftarrow> deliver D G t1 t2 t3 t4 ok consume outs sw u;
        Some (sw, u, back @ rest) }
      else do {
        (sw, u, rest) \<leftarrow> deliver D G t1 t2 t3 t4 ok consume outs sw u;
        Some (sw, u, (n, f) # rest) })"

text \<open>One frame of the guest's wire, of an instance that is not a peer.\<close>

definition guest_frame :: "'m dhcp_ops \<Rightarrow> hdr_ops \<Rightarrow> int \<Rightarrow> int \<Rightarrow> int \<Rightarrow> int \<Rightarrow> bool \<Rightarrow> (frame \<Rightarrow> bool) \<Rightarrow> frame
    \<Rightarrow> switch \<Rightarrow> uplink_sink \<Rightarrow> (switch \<times> uplink_sink \<times> sends) option" where
  "guest_frame D G t1 t2 t3 t4 ok consume f sw u =
     do {
        (sw, _, outs) \<leftarrow> wire_frame t1 t2 None f sw;
        deliver D G t2 t2 t3 t4 ok consume outs sw u }"

lemma parse_cidr_mask:
  "parse_cidr s = Some net \<Longrightarrow> length (net_mask net) \<in> {4, 16} \<and> length (net_ip net) \<le> length (net_mask net)"
  by (auto simp: parse_cidr_def Let_def split: option.splits if_splits)

lemma be32_total: "4 \<le> length b \<Longrightarrow> be32 b \<noteq> None"
  by (cases b rule: be32.cases) auto

lemma hub_pool_total:
  assumes "parse_cidr (cf_network cfg) = Some net" "to4 (net_ip net) = Some a"
  shows "hub_pool cfg seed \<noteq> None"
proof -
  have "be32 (net_mask net) \<noteq> None" using parse_cidr_mask [OF assms(1)] by (intro be32_total) auto
  then have "usable_leases (cf_network cfg) st mx \<noteq> None" for st mx
    using assms be32_total [of "ip4_bytes a"]
    by (auto simp: usable_leases_def be32_total Let_def split: option.splits)
  then obtain n where "usable_leases (cf_network cfg) (parse_ip (cf_dhcp_start cfg)) 256 = Some n" by blast
  then show ?thesis by (simp add: hub_pool_def Let_def)
qed

lemma nat_network:
  assumes "net_ok P" "new_nat P nic assign resolv opts = Inr n"
  shows "\<exists>net a. parse_cidr (no_network opts) = Some net \<and> to4 (net_ip net) = Some a \<and> length (net_mask net) = 4"
proof -
  obtain net a s where n: "parse_cidr (no_network opts) = Some net" "to4 (net_ip net) = Some a"
      "new_subnet P (ip4_bytes a) (net_mask net) = Some s"
    using assms(2) by (auto simp: new_nat_def nat_subnet_def split: if_splits sum.splits option.splits)
  then have "length (net_mask net) = 4"
    using net_okD(4) [OF assms(1), of "ip4_bytes a" "net_mask net"] by (cases "length (net_mask net) = 4") auto
  with n show ?thesis by blast
qed

text \<open>Every lease of a pool is one of its range, a restored table's gaps included.\<close>

definition in_range :: "pool \<Rightarrow> bool" where
  "in_range p \<longleftrightarrow> 0 \<le> pnext p \<and> (\<forall>x \<in> set (assigned p). \<exists>k. 0 \<le> k \<and> k < psize p \<and> snd x = lease_addr p k)"

lemma in_range_new: "in_range (new_pool st n)"
  by (simp add: in_range_def new_pool_def)

lemma set_update_new:
  "x \<in> set (AList.update k v al) \<Longrightarrow> x \<in> set al \<or> x = (k, v)"
  by (induction al) (auto split: if_splits)

lemma in_range_assign: "in_range p \<Longrightarrow> in_range (fst (get_or_assign hw p))"
  by (auto simp: in_range_def get_or_assign_def Let_def dest!: set_update_new split: option.splits)

lemma in_range_serve: "in_range p \<Longrightarrow> in_range (serve hws p)"
  by (induction hws arbitrary: p) (simp_all add: in_range_assign)

lemma in_range_restore:
  assumes "in_range p"
  shows "in_range (restore ls p)"
proof -
  have keep: "in_range (fold (restore_step ls) ks q) \<and> psize (fold (restore_step ls) ks q) = psize q"
    if "in_range q" "\<forall>k \<in> set ks. 0 \<le> k \<and> k < psize q" for q ks
    using that
  proof (induction ks arbitrary: q)
    case (Cons k ks)
    have "in_range (restore_step ls k q) \<and> psize (restore_step ls k q) = psize q"
      using Cons.prems
      by (auto simp: in_range_def restore_step_def find_Some_iff dest!: set_update_new split: option.splits)
    with Cons show ?case by simp
  qed simp
  have "in_range (fold (restore_step ls) (map int [0..<nat (psize p)]) p)"
    by (rule keep [THEN conjunct1, OF assms]) auto
  then show ?thesis
    by (auto simp: restore_def Let_def in_range_def)
qed

lemma hub_pool_leases:
  assumes "hub_pool cfg seed = Some (Some p)" and "parse_cidr (cf_network cfg) = Some net" "length (net_mask net) = 4"
    and "map_of (assigned (serve hws p)) m = Some a"
  shows "in_subnet net a \<and> ip4_u32 a < ip4_u32 (broadcast_of net)"
proof -
  let ?start = "parse_ip (cf_dhcp_start cfg)"
  obtain n where n: "usable_leases (cf_network cfg) ?start 256 = Some n" "n \<noteq> 0"
    and p: "p = (if seed \<noteq> [] then restore seed (new_pool ?start n) else new_pool ?start n)"
    using assms(1) by (auto simp: hub_pool_def Let_def split: if_splits option.splits)
  obtain a0 where a0: "to4 ?start = Some a0" using n by (auto simp: usable_leases_def split: option.splits)
  have "in_range (serve hws p)" by (simp add: p in_range_new in_range_restore in_range_serve)
  moreover have "psize (serve hws p) = n" "base (serve hws p) = base (new_pool ?start n)"
    by (simp_all add: p restore_frame)
  moreover from this(2) have "lease_addr (serve hws p) = lease_addr (new_pool ?start n)" by (rule lease_addr_base)
  ultimately have "\<forall>x \<in> set (assigned (serve hws p)). \<exists>k. 0 \<le> k \<and> k < n \<and> snd x = lease_addr (new_pool ?start n) k"
    by (simp add: in_range_def)
  with map_of_SomeD [OF assms(4)] obtain k where k: "0 \<le> k" "k < n" "a = lease_addr (new_pool ?start n) k"
    by force
  show ?thesis using usable_leases_subnet [OF assms(2,3) a0 n(1) k(1,2)] k(3) by simp
qed

lemma uplink_kind_slirp:
  "uplink_kind_of u = Wireguard \<longleftrightarrow> u = ''wireguard''"
  "uplink_kind_of u = Slirp \<longleftrightarrow> u = ''slirp'' \<or> u = ''''"
  by (auto simp: uplink_kind_of_def has_prefix_def split: if_splits)

lemma build_netstack_Some:
  assumes "net_ok P"
  obtains e where "build_netstack P h cfg isWG seed ep = Some (Inl e)"
  | n pool s t where "new_nat P (h_nic h) (h_assign h) (h_resolv h) (nat_options_of cfg) = Inr n"
      "hub_pool cfg seed = Some pool" "layer_tunnel P h cfg isWG (nat_stack (ep_mtu ep) n) = Inr (s, t)"
      "build_netstack P h cfg isWG seed ep =
        Some (Inr \<lparr>ns_stack = s, ns_tunnel = t, ns_pool = pool, ns_sink = sink_of h cfg pool ep\<rparr>)"
proof (cases "new_nat P (h_nic h) (h_assign h) (h_resolv h) (nat_options_of cfg)")
  case (Inl e)
  then show thesis using that(1) by (simp add: build_netstack_def)
next
  case (Inr n)
  obtain net a where "parse_cidr (cf_network cfg) = Some net" "to4 (net_ip net) = Some a"
    using nat_network [OF assms Inr] by (auto simp: nat_options_of_def)
  then obtain pool where pool: "hub_pool cfg seed = Some pool" using hub_pool_total by blast
  show thesis
  proof (cases "layer_tunnel P h cfg isWG (nat_stack (ep_mtu ep) n)")
    case (Inl e)
    with Inr pool show thesis by (intro that(1)) (simp add: build_netstack_def)
  next
    case T: (Inr r)
    obtain s t where "r = (s, t)" by (cases r)
    with Inr pool T show thesis by (intro that(2)) (simp_all add: build_netstack_def)
  qed
qed

lemma layer_tunnel_plain: "layer_tunnel P h cfg False s = Inr (s', t) \<Longrightarrow> s' = s \<and> t = None"
  by (simp add: layer_tunnel_def)

text \<open>What holds of a netstack uplink once it is built.\<close>

definition netstack_uplink :: "config \<Rightarrow> bool" where
  "netstack_uplink cfg \<longleftrightarrow> cf_uplink cfg \<in> {''slirp'', '''', ''wireguard''}"

definition uplink_sound :: "config \<Rightarrow> 'sub netstack \<Rightarrow> bool" where
  "uplink_sound cfg ns \<longleftrightarrow>
     (ns_tunnel ns \<noteq> None \<longrightarrow> cf_uplink cfg = ''wireguard'') \<and>
     ul_dhcp (ns_sink ns) = map_option (\<lambda>_. dhcp_server_of cfg) (ns_pool ns) \<and>
     (\<exists>gw dns net. to4 (parse_ip (cf_gateway cfg)) = Some gw \<and> to4 (parse_ip (cf_nameserver cfg)) = Some dns \<and>
        (\<forall>a. ul_own (ns_sink ns) a \<longleftrightarrow> a \<in> {gw, dns}) \<and> parse_cidr (cf_network cfg) = Some net \<and>
        (\<forall>p hws m a. ns_pool ns = Some p \<and> map_of (assigned (serve hws p)) m = Some a \<longrightarrow>
           in_subnet net a \<and> ip4_u32 a < ip4_u32 (broadcast_of net)))"

lemma build_netstack_sound:
  assumes "net_ok P" "build_netstack P h cfg isWG seed ep = Some (Inr ns)" "isWG \<longrightarrow> cf_uplink cfg = ''wireguard''"
  shows "uplink_sound cfg ns"
  using build_netstack_Some [OF assms(1), of h cfg isWG seed ep]
proof cases
  case 1
  with assms(2) show ?thesis by simp
next
  case (2 n pool s t)
  with assms(2) have ns: "ns = \<lparr>ns_stack = s, ns_tunnel = t, ns_pool = pool, ns_sink = sink_of h cfg pool ep\<rparr>"
    by simp
  obtain net where net: "parse_cidr (cf_network cfg) = Some net" "length (net_mask net) = 4"
    using nat_network [OF assms(1) 2(1)] by (auto simp: nat_options_of_def)
  obtain gw dns where own: "to4 (parse_ip (cf_gateway cfg)) = Some gw" "to4 (parse_ip (cf_nameserver cfg)) = Some dns"
    using new_nat_Inr(5,6) [OF 2(1)] by (auto simp: nat_options_of_def)
  have "t \<noteq> None \<longrightarrow> isWG" using 2(3) by (cases isWG) (auto dest: layer_tunnel_plain)
  moreover have "in_subnet net a \<and> ip4_u32 a < ip4_u32 (broadcast_of net)"
    if "pool = Some p" "map_of (assigned (serve hws p)) m = Some a" for p hws m a
    using hub_pool_leases [OF _ net that(2)] 2(2) that(1) by simp
  moreover have "\<forall>a. ul_own (ns_sink ns) a \<longleftrightarrow> a \<in> {gw, dns}"
    using own by (auto simp: ns sink_of_def own_addrs_def)
  ultimately show ?thesis using assms(3) own net(1) by (auto simp: uplink_sound_def ns sink_of_def)
qed

lemma plug_link_sound:
  "uplink_sound cfg ns \<Longrightarrow> \<exists>ns'. plug_link (Netstack ns) = Netstack ns' \<and> uplink_sound cfg ns' \<and> ep_sink (ul_link (ns_sink ns'))"
  by (auto simp: plug_link_def uplink_sound_def set_sink_def)

text \<open>C12: Starting an instance never panics, whatever the configuration file, the host's answers and the
  gossiped leases are: it runs or it ends with a message. When it runs, its switch is a sound
  one with exactly the uplink and the guest plugged in. A netstack uplink exists exactly for
  the slirp and wireguard uplinks: its gateway, its name server and its network parse, the
  first two as IPv4, it has a DHCP server exactly when it has a pool, and every address that
  pool ever leases, with inherited leases in it, lies in the configured network below its
  broadcast address. Only a wireguard uplink has a tunnel, and only a netstack has port rules.\<close>

theorem instance_start_safe:
  assumes "net_ok P" and "sw_reachable sw" and "ports sw = []"
  shows "\<exists>r. run_instance P h cfg hub seed ep sw = Some r \<and> (case r of Inl e \<Rightarrow> True | Inr i \<Rightarrow>
     sw_reachable (rn_switch i) \<and> map fst (ports (rn_switch i)) = [uplink, local_port] \<and>
     (case rn_uplink i of
        Netstack ns \<Rightarrow> netstack_uplink cfg \<and> uplink_sound cfg ns \<and> ep_sink (ul_link (ns_sink ns))
      | _ \<Rightarrow> \<not> netstack_uplink cfg \<and> rn_forwards i = None))"
proof -
  let ?sw = "instance_switch uplink_snk guest_snk sw" and ?k = "uplink_kind_of (cf_uplink cfg)"
  have sw: "sw_reachable ?sw" using assms(2) by (rule instance_switch_ports)
  have ports: "map fst (ports ?sw) = [uplink, local_port]"
    using assms(3) by (simp add: instance_switch_def add_port_def uplink_def local_port_def)
  have kind: "netstack_uplink cfg \<longleftrightarrow> ?k = Wireguard \<or> ?k = Slirp"
    using uplink_kind_slirp [of "cf_uplink cfg"] by (auto simp: netstack_uplink_def)
  have plain: ?thesis if "build_uplink P h cfg seed ep = Some r" "case r of Inl e \<Rightarrow> True | Inr u \<Rightarrow>
      (case u of Netstack ns \<Rightarrow> False | _ \<Rightarrow> \<not> netstack_uplink cfg)" for r
    using that sw ports by (auto simp: run_instance_def plug_link_def start_forwards_def split: sum.splits uplink_dev.splits)
  have net: ?thesis if k: "netstack_uplink cfg"
      and b: "build_uplink P h cfg seed ep = map_option (map_sum id Netstack) (build_netstack P h cfg (?k = Wireguard) seed ep)"
  proof -
    obtain r where r: "build_netstack P h cfg (?k = Wireguard) seed ep = Some r"
      using build_netstack_Some [OF assms(1), of h cfg "?k = Wireguard" seed ep] by blast
    show ?thesis
    proof (cases r)
      case (Inl e)
      with b r show ?thesis by (simp add: run_instance_def)
    next
      case (Inr ns)
      have "uplink_sound cfg ns"
        using r Inr uplink_kind_slirp(1) [of "cf_uplink cfg"] by (intro build_netstack_sound [OF assms(1)]) auto
      from plug_link_sound [OF this] b r Inr k sw ports show ?thesis by (auto simp: run_instance_def)
    qed
  qed
  show ?thesis
  proof (cases ?k)
    case NoUplink
    with kind show ?thesis by (intro plain) (auto simp: build_uplink_def)
  next
    case (TapUplink name)
    with kind show ?thesis
      by (cases "snd (tap_open (h_tap_open h) (h_tap_ioctl h) name)") (auto simp: build_uplink_def intro: plain)
  next
    case (UnknownUplink u)
    with kind show ?thesis by (intro plain) (auto simp: build_uplink_def)
  qed (use kind in \<open>auto simp: build_uplink_def intro: net\<close>)
qed

section \<open>A guest gets its address\<close>

lemma flood_two:
  assumes "ports s = [(uplink, nu), (local_port, ng)]"
  shows "flood uplink f s = Some (s, [(ng, f)])" "flood local_port f s = Some (s, [(nu, f)])"
  using assms by (simp_all add: flood_def uplink_def local_port_def)

lemma forward_broadcast_up:
  assumes "ports s = [(uplink, nu), (local_port, ng)]" "14 \<le> length f" "is_multicast (dst_mac f)"
  shows "forward t1 t2 local_port f s = Some (learn (src_mac f) local_port t1 s, [(nu, f)])"
  using assms by (simp add: forward_eq flood_two)

lemma forward_reply_down:
  assumes p: "ports s = [(uplink, nu), (local_port, ng)]" and "peers s = 0" and len: "14 \<le> length f"
    and dst: "\<not> is_multicast (dst_mac f) \<Longrightarrow>
      src_mac f \<noteq> dst_mac f \<and> macs s (dst_mac f) = Some e \<and> e_port e = local_port"
  shows "\<exists>s'. forward t1 t2 uplink f s = Some (s', [(ng, f)])"
proof (cases "is_multicast (dst_mac f)")
  case True
  then show ?thesis using p len by (simp add: forward_eq flood_two)
next
  case False
  let ?s = "learn (src_mac f) uplink t1 s"
  obtain s2 d where l: "lookup (dst_mac f) t2 ?s = (s2, d)" by fastforce
  note lf = lookup_fields [OF l]
  have "macs ?s (dst_mac f) = Some e" using dst [OF False] by (auto simp: learn_macs)
  then have d: "d = None \<or> d = Some local_port"
    using dst [OF False] by (simp add: lf(5) fresh_port_def)
  have s2: "ports s2 = [(uplink, nu), (local_port, ng)]" "peers s2 = 0" using lf(1,4) p assms(2) by simp_all
  then have "emit local_port f s2 = Some (s2, [(ng, f)])" by (simp add: emit_def uplink_def local_port_def)
  moreover have "local_port \<noteq> uplink" by (simp add: uplink_def local_port_def)
  ultimately show ?thesis using d False l s2 by (auto simp: forward_eq [OF len] flood_two)
qed

lemma uplink_send_answered:
  assumes "ul_dhcp u = Some srv" "dhcp_handle_frame D G srv f (ul_pool u) = Some (p', Some out)"
  shows "uplink_send D G t1 t2 ok consume f u = Some (u\<lparr>ul_pool := p'\<rparr>, Answered out)"
  using assms by (simp add: uplink_send_def uplink_dhcp_def)

lemma guest_udp_macs:
  "src_mac (guest_udp gw guest ip uf payload padding) = guest"
  "dst_mac (guest_udp gw guest ip uf payload padding) = gw"
  by (simp_all add: src_mac_def dst_mac_def guest_udp_def)

text \<open>A broadcast the guest sends and the uplink answers comes back to the guest, and to nobody else.\<close>

lemma answer_comes_back:
  assumes "sw_reachable sw" and p: "ports sw = [(uplink, nu), (local_port, ng)]"
    and snk: "p_sink (objs sw ! nu) = uplink_snk"
    and f: "14 \<le> length f" "is_multicast (dst_mac f)" "\<not> is_multicast (src_mac f)"
    and u: "uplink_send D G t2 t2 ok consume f u = Some (u', Answered out)"
    and out: "14 \<le> length out" "src_mac out \<noteq> src_mac f" "is_multicast (dst_mac out) \<or> dst_mac out = src_mac f"
  shows "\<exists>sw'. guest_frame D G t1 t2 t3 t4 ok consume f sw u = Some (sw', u', [(ng, out)])"
proof -
  let ?s = "learn (src_mac f) local_port t1 sw"
  have "peers sw = 0"
    using sw_reachable_inv [OF assms(1)] p by (simp add: sw_inv_def peer_count_def uplink_def local_port_def)
  moreover have "macs ?s (src_mac f) = Some \<lparr>e_port = local_port, e_seen = t1\<rparr>" using f(3) by (simp add: learn_macs)
  ultimately obtain sw' where "forward t3 t4 uplink out ?s = Some (sw', [(ng, out)])"
    using forward_reply_down [of ?s nu ng out "\<lparr>e_port = local_port, e_seen = t1\<rparr>" t3 t4] p out by auto
  with forward_broadcast_up [OF p f(1,2), of t1 t2] u snk f(1) show ?thesis
    by (simp add: guest_frame_def wire_frame_def)
qed

lemma vde_mac_bytes: "vde_mac = mac_bytes (MAC 0x7a 0x72 0x6d 0x3c 0xd7 0x23)"
  by code_simp

lemma reply_macs:
  assumes "headers_ok G" "ds_mac s = mac_bytes own"
  shows "14 \<le> length (dhcp_reply_frame G s bytes guest (ip4_bytes a) bc)"
    and "src_mac (dhcp_reply_frame G s bytes guest (ip4_bytes a) bc) = own"
    and "dst_mac (dhcp_reply_frame G s bytes guest (ip4_bytes a) bc) = (if bc then bcast else guest)"
    and "drop 42 (dhcp_reply_frame G s bytes guest (ip4_bytes a) bc) = bytes"
    and "length (dhcp_reply_frame G s bytes guest (ip4_bytes a) bc) = 42 + length bytes"
    and "u16_at (dhcp_reply_frame G s bytes guest (ip4_bytes a) bc) 12 = Some 0x0800"
proof -
  have d: "reply_dst guest (ip4_bytes a) bc =
      (mac_bytes (if bc then bcast else guest), if bc then IP4 255 255 255 255 else a)"
    by (simp add: reply_dst_def eth_broadcast_def bcast_def numeral_eq_Suc)
  note out = dhcp_reply_frame_eq [OF assms(1) d, of s bytes]
  show "14 \<le> length (dhcp_reply_frame G s bytes guest (ip4_bytes a) bc)"
    "src_mac (dhcp_reply_frame G s bytes guest (ip4_bytes a) bc) = own"
    "dst_mac (dhcp_reply_frame G s bytes guest (ip4_bytes a) bc) = (if bc then bcast else guest)"
    "drop 42 (dhcp_reply_frame G s bytes guest (ip4_bytes a) bc) = bytes"
    "length (dhcp_reply_frame G s bytes guest (ip4_bytes a) bc) = 42 + length bytes"
    "u16_at (dhcp_reply_frame G s bytes guest (ip4_bytes a) bc) 12 = Some 0x0800"
    unfolding out by (simp_all add: eth_header_def src_mac_def dst_mac_def assms(2) pad_exact put16_def u16_at_def subslice_def)
qed

lemma running_uplink_sound:
  assumes "net_ok P" "run_instance P h cfg hub seed ep sw = Some (Inr i)" "rn_uplink i = Netstack ns"
  shows "uplink_sound cfg ns"
proof -
  obtain u where u: "build_uplink P h cfg seed ep = Some (Inr u)" "rn_uplink i = plug_link u"
  proof (cases "build_uplink P h cfg seed ep")
    case (Some r)
    with assms(2) that show thesis by (cases r) (auto simp: run_instance_def)
  qed (use assms(2) in \<open>simp add: run_instance_def\<close>)
  with assms(3) obtain ns0 where n: "u = Netstack ns0" by (auto simp: plug_link_def split: uplink_dev.splits)
  let ?k = "uplink_kind_of (cf_uplink cfg)"
  have netstack: "map_sum id Netstack z = Inr (Netstack ns0) \<Longrightarrow> z = Inr ns0" for z :: "fatal + 'a netstack"
    by (cases z) auto
  from u(1) n have "build_netstack P h cfg (?k = Wireguard) seed ep = Some (Inr ns0)"
    by (auto simp: build_uplink_def dest: netstack split: uplink_kind.splits sum.splits)
  then have "uplink_sound cfg ns0"
    using uplink_kind_slirp(1) [of "cf_uplink cfg"] by (intro build_netstack_sound [OF assms(1)]) auto
  from plug_link_sound [OF this] n u(2) assms(3) show ?thesis by auto
qed

text \<open>What the uplink sink of a running instance answers to a guest's request, whatever it has served before.\<close>

lemma uplink_answers:
  assumes G: "headers_ok G" and P: "net_ok P"
    and inst: "run_instance P h cfg hub seed ep sw0 = Some (Inr i)" "rn_uplink i = Netstack ns" "ns_pool ns = Some p"
    and ip: "if_proto ip = 17" "if_total ip = of_nat (28 + length payload)" "28 + length payload < 65536"
    and udp: "uf_dst uf = 67"
    and msg: "msg_from_bytes D payload = Some m" "msg_type D m = type_discover \<or> msg_type D m = type_request"
      "msg_new_reply D m = Some r0"
    and lease: "get_or_assign (msg_client_hw D m) (serve hws p) = (p', Inr a)"
  obtains net out where "parse_cidr (cf_network cfg) = Some net" "in_subnet net a"
    and "uplink_send D G t1 t2 ok consume (guest_udp gw guest ip uf payload padding) ((ns_sink ns)\<lparr>ul_pool := serve hws p\<rparr>) =
      Some ((ns_sink ns)\<lparr>ul_pool := p'\<rparr>, Answered out)"
    and "mac_bytes (src_mac out) = vde_mac" "dst_mac out = (if msg_is_broadcast D m then bcast else guest)"
    and "drop 42 out = msg_to_bytes D (reply_message D (dhcp_server_of cfg) net m r0 a)"
    and "length out = 42 + length (msg_to_bytes D (reply_message D (dhcp_server_of cfg) net m r0 a))"
    and "u16_at out 12 = Some 0x0800"
proof -
  let ?s = "dhcp_server_of cfg" and ?p = "serve hws p"
  let ?f = "guest_udp gw guest ip uf payload padding" and ?u = "(ns_sink ns)\<lparr>ul_pool := ?p\<rparr>"
  note sound = running_uplink_sound [OF P inst(1,2), unfolded uplink_sound_def]
  have mac: "ds_mac ?s = mac_bytes (MAC 0x7a 0x72 0x6d 0x3c 0xd7 0x23)"
    by (simp add: dhcp_server_of_def new_dhcp_server_def vde_mac_bytes)
  have server: "ul_dhcp ?u = Some ?s" and "do_network (ds_opts ?s) = cf_network cfg"
    using sound inst(3) by (simp_all add: dhcp_server_of_def new_dhcp_server_def)
  obtain net where net: "parse_cidr (cf_network cfg) = Some net"
    and inside: "\<And>hws m a. map_of (assigned (serve hws p)) m = Some a \<Longrightarrow> in_subnet net a"
    using sound inst(3) by blast
  have "map_of (assigned (serve (hws @ [msg_client_hw D m]) p)) (mac_of (msg_client_hw D m)) = Some a"
    using get_or_assign_Inr [OF lease] lease by (simp add: serve_snoc)
  then have "in_subnet net a" by (rule inside)
  define out where "out = dhcp_reply_frame G ?s (msg_to_bytes D (reply_message D ?s net m r0 a)) guest (ip4_bytes a)
    (msg_is_broadcast D m)"
  note macs = reply_macs [OF G mac, of "msg_to_bytes D (reply_message D ?s net m r0 a)" guest a "msg_is_broadcast D m",
      folded out_def]
  have "dhcp_handle_frame D G ?s ?f (ul_pool ?u) = Some (p', Some out)"
    using dhcp_handle_packet_answer [OF msg lease, of ?s net] net \<open>do_network (ds_opts ?s) = cf_network cfg\<close>
    by (simp add: dhcp_handle_frame_guest [OF G ip udp] out_def)
  from uplink_send_answered [OF server this]
  have "uplink_send D G t1 t2 ok consume ?f ?u = Some ((ns_sink ns)\<lparr>ul_pool := p'\<rparr>, Answered out)" by simp
  with net \<open>in_subnet net a\<close> macs show thesis by (intro that [of net out]) (auto simp: vde_mac_bytes)
qed

text \<open>C3: A running instance gives its guest an address. Whatever its pool has served before, a DHCP
  DISCOVER or REQUEST the guest broadcasts on its wire goes through the switch into the uplink
  sink, and exactly one frame comes back, to the guest's socket and to nobody else: from the
  device's MAC, to the guest or to the broadcast address as the client asked, carrying the
  OFFER or ACK for the address the pool assigned, which lies in the configured network. The
  DHCP message package and the header codecs are the libraries'.\<close>

theorem guest_is_served:
  assumes G: "headers_ok G" and P: "net_ok P"
    and inst: "run_instance P h cfg hub seed ep sw0 = Some (Inr i)" "rn_uplink i = Netstack ns" "ns_pool ns = Some p"
    and sw: "sw_reachable sw" "ports sw = [(uplink, nu), (local_port, ng)]" "p_sink (objs sw ! nu) = uplink_snk"
    and guest: "\<not> is_multicast guest" "mac_bytes guest \<noteq> vde_mac" "is_multicast gw"
    and ip: "if_proto ip = 17" "if_total ip = of_nat (28 + length payload)" "28 + length payload < 65536"
    and udp: "uf_dst uf = 67"
    and msg: "msg_from_bytes D payload = Some m" "msg_type D m = type_discover \<or> msg_type D m = type_request"
      "msg_new_reply D m = Some r0"
    and lease: "get_or_assign (msg_client_hw D m) (serve hws p) = (p', Inr a)"
  shows "\<exists>net sw' out. parse_cidr (cf_network cfg) = Some net \<and> in_subnet net a \<and>
     guest_frame D G t1 t2 t3 t4 ok consume (guest_udp gw guest ip uf payload padding) sw
       ((ns_sink ns)\<lparr>ul_pool := serve hws p\<rparr>) = Some (sw', (ns_sink ns)\<lparr>ul_pool := p'\<rparr>, [(ng, out)]) \<and>
     mac_bytes (src_mac out) = vde_mac \<and> dst_mac out = (if msg_is_broadcast D m then bcast else guest) \<and>
     drop 42 out = msg_to_bytes D (reply_message D (dhcp_server_of cfg) net m r0 a)"
proof -
  obtain net out where a: "parse_cidr (cf_network cfg) = Some net" "in_subnet net a"
      "uplink_send D G t2 t2 ok consume (guest_udp gw guest ip uf payload padding) ((ns_sink ns)\<lparr>ul_pool := serve hws p\<rparr>) =
        Some ((ns_sink ns)\<lparr>ul_pool := p'\<rparr>, Answered out)"
      "mac_bytes (src_mac out) = vde_mac" "dst_mac out = (if msg_is_broadcast D m then bcast else guest)"
      "drop 42 out = msg_to_bytes D (reply_message D (dhcp_server_of cfg) net m r0 a)"
    and len: "14 \<le> length out"
    by (rule uplink_answers [OF G P inst ip udp msg lease, where ?t1.0 = t2 and ?t2.0 = t2 and ok = ok and
          consume = consume and gw = gw and guest = guest and padding = padding]) auto
  have "src_mac out \<noteq> guest" using a(4) guest(2) by auto
  moreover have "is_multicast (dst_mac out) \<or> dst_mac out = guest" using a(5) by (simp add: bcast_def is_multicast_def)
  ultimately obtain sw' where "guest_frame D G t1 t2 t3 t4 ok consume (guest_udp gw guest ip uf payload padding) sw
      ((ns_sink ns)\<lparr>ul_pool := serve hws p\<rparr>) = Some (sw', (ns_sink ns)\<lparr>ul_pool := p'\<rparr>, [(ng, out)])"
    using answer_comes_back [OF sw _ _ _ a(3), of t1 t3 t4] guest len by (auto simp: guest_udp_macs guest_udp_parts)
  with a show ?thesis by blast
qed

section \<open>A concrete host\<close>

definition demo_host :: host where
  "demo_host = \<lparr>h_tap_open = None, h_tap_ioctl = (\<lambda>_. None), h_nic = True, h_assign = (\<lambda>_. True),
     h_resolv = Some ''nameserver 9.9.9.9'', h_wg = willing_env, h_conf_path = Inl NoWorkingDir,
     h_read = (\<lambda>_. None), h_echo = Inl EchoSocket, h_listen = (\<lambda>_ _ _. True)\<rparr>"

definition demo_netstack :: "(bytes \<times> nat) netstack" where
  "demo_netstack = (let pool = Some (new_pool [10, 0, 2, 15] 240) in
     \<lparr>ns_stack = nat_stack 9216 sample_nat, ns_tunnel = None, ns_pool = pool,
      ns_sink = sink_of demo_host defaults pool (new_endpoint 3 9216 vde_mac)\<rparr>)"

lemma demo_pool_built: "hub_pool defaults [] = Some (Some (new_pool [10, 0, 2, 15] 240))"
proof -
  have "parse_ip (cf_dhcp_start defaults) = v4_prefix @ [10, 0, 2, 15]" by code_simp
  moreover have "usable_leases (cf_network defaults) (v4_prefix @ [10, 0, 2, 15]) 256 = Some 240" by code_simp
  moreover have "cf_dhcp_start defaults \<noteq> []" by (simp add: defaults_def)
  moreover have "base (new_pool (v4_prefix @ [10, 0, 2, 15]) 240) = base (new_pool [10, 0, 2, 15] 240)" by code_simp
  ultimately show ?thesis by (simp add: hub_pool_def Let_def new_pool_def v4_prefix_def)
qed

lemma demo_netstack_built:
  "build_netstack demo_net demo_host defaults False [] (new_endpoint 3 9216 vde_mac) = Some (Inr demo_netstack)"
proof -
  have "nat_options_of defaults = sample_options" by (simp add: nat_options_of_def sample_options_def defaults_def)
  with sample_nat_built demo_pool_built show ?thesis
    by (simp add: build_netstack_def demo_host_def layer_tunnel_def demo_netstack_def new_endpoint_def Let_def)
qed

abbreviation demo_start :: "(fatal + (bytes \<times> nat) running) option" where
  "demo_start \<equiv> run_instance demo_net demo_host defaults True [] (new_endpoint 3 9216 vde_mac) new_switch"

lemma demo_started:
  "\<exists>i. demo_start = Some (Inr i) \<and> rn_uplink i = plug_link (Netstack demo_netstack) \<and>
     rn_switch i = instance_switch uplink_snk guest_snk new_switch"
proof -
  have "uplink_kind_of (cf_uplink defaults) = Slirp" by (simp add: uplink_kind_slirp defaults_def)
  then show ?thesis using demo_netstack_built by (simp add: run_instance_def build_uplink_def)
qed

lemma instance_start_safe_witness:
  "\<exists>i ns. demo_start = Some (Inr i) \<and> map fst (ports (rn_switch i)) = [-1, -2] \<and>
     rn_uplink i = Netstack ns \<and> uplink_sound defaults ns \<and> ep_sink (ul_link (ns_sink ns))"
proof -
  obtain i where i: "demo_start = Some (Inr i)" "rn_uplink i = plug_link (Netstack demo_netstack)"
    using demo_started by blast
  have "ports new_switch = []" by (simp add: new_switch_def)
  from instance_start_safe [OF demo_net_ok sw_init this, of demo_host defaults True "[]" "new_endpoint 3 9216 vde_mac"] i
  show ?thesis by (simp add: plug_link_def uplink_def local_port_def)
qed

lemma demo_ports:
  "ports (instance_switch uplink_snk guest_snk new_switch) = [(uplink, 0), (local_port, 1)]"
  "p_sink (objs (instance_switch uplink_snk guest_snk new_switch) ! 0) = uplink_snk"
  by (simp_all add: instance_switch_def add_port_def new_switch_def new_port_def uplink_def local_port_def)

lemma guest_is_served_witness:
  "\<exists>u net sw' out p'. in_subnet net (IP4 10 0 2 15) \<and>
     guest_frame demo_ops rfc 0 1 2 3 True (\<lambda>_. True)
       (guest_udp bcast (MAC 2 0 0 0 0 1) demo_ip demo_udp [1, 0, 2, 0, 0, 0, 0, 1] [])
       (instance_switch uplink_snk guest_snk new_switch) u = Some (sw', u\<lparr>ul_pool := p'\<rparr>, [(1, out)]) \<and>
     mac_bytes (src_mac out) = vde_mac \<and> dst_mac out = MAC 2 0 0 0 0 1"
proof -
  let ?p = "new_pool [10, 0, 2, 15] 240" and ?hw = "[2, 0, 0, 0, 0, 1] :: bytes"
  obtain i where i: "demo_start = Some (Inr i)" "rn_uplink i = plug_link (Netstack demo_netstack)"
    using demo_started by blast
  obtain ns where ns: "rn_uplink i = Netstack ns" "ns_pool ns = Some ?p"
    using i(2) by (simp add: plug_link_def demo_netstack_def Let_def)
  have "lease_addr ?p 0 = IP4 10 0 2 15" by (simp add: lease_addr_def new_pool_def to4_def ip4_of_def pad_def)
  then have "snd (get_or_assign ?hw ?p) = Inr (IP4 10 0 2 15)" by (simp add: get_or_assign_def Let_def new_pool_def)
  then have a: "get_or_assign ?hw (serve [] ?p) = (fst (get_or_assign ?hw ?p), Inr (IP4 10 0 2 15))"
    by (simp add: prod_eq_iff)
  have reach: "sw_reachable (instance_switch uplink_snk guest_snk new_switch)" by (intro instance_switch_ports sw_init)
  have m: "\<not> is_multicast (MAC 2 0 0 0 0 1)" "mac_bytes (MAC 2 0 0 0 0 1) \<noteq> vde_mac" "is_multicast bcast"
    by (simp_all add: is_multicast_def vde_mac_bytes bcast_def)
  have d: "if_proto demo_ip = 17" "if_total demo_ip = of_nat (28 + length [1, 0, 2, 0, 0, 0, 0, 1 :: byte])"
      "28 + length [1, 0, 2, 0, 0, 0, 0, 1 :: byte] < 65536" "uf_dst demo_udp = 67"
    by (simp_all add: demo_ip_def demo_udp_def)
  have t: "msg_type demo_ops (1, False, ?hw) = type_discover \<or> msg_type demo_ops (1, False, ?hw) = type_request"
    by (simp add: dhcp_types)
  have "msg_from_bytes demo_ops [1, 0, 2, 0, 0, 0, 0, 1] = Some (1, False, ?hw)" by simp
  note served = guest_is_served [OF rfc_ok demo_net_ok i(1) ns reach demo_ports m d this t demo_msg(5)]
  have "get_or_assign (msg_client_hw demo_ops (1, False, ?hw)) (serve [] ?p) = (fst (get_or_assign ?hw ?p), Inr (IP4 10 0 2 15))"
    using a by simp
  from served [OF this, of 0 1 2 3 True "\<lambda>_. True" "[]"] obtain net sw' out where
    r: "in_subnet net (IP4 10 0 2 15)" "guest_frame demo_ops rfc 0 1 2 3 True (\<lambda>_. True)
       (guest_udp bcast (MAC 2 0 0 0 0 1) demo_ip demo_udp [1, 0, 2, 0, 0, 0, 0, 1] [])
       (instance_switch uplink_snk guest_snk new_switch) ((ns_sink ns)\<lparr>ul_pool := serve [] ?p\<rparr>) =
         Some (sw', (ns_sink ns)\<lparr>ul_pool := fst (get_or_assign ?hw ?p)\<rparr>, [(1, out)])"
      "mac_bytes (src_mac out) = vde_mac" "dst_mac out = MAC 2 0 0 0 0 1"
    unfolding demo_msg by auto
  moreover have "((ns_sink ns)\<lparr>ul_pool := serve [] ?p\<rparr>)\<lparr>ul_pool := fst (get_or_assign ?hw ?p)\<rparr>
      = (ns_sink ns)\<lparr>ul_pool := fst (get_or_assign ?hw ?p)\<rparr>" by simp
  ultimately show ?thesis by metis
qed

section \<open>Limits of the pool and of the link\<close>

text \<open>
  \<^verbatim>\<open>UsableLeases\<close> leaves the netstack's own addresses in the range: a start below the
  gateway hands the gateway's address to a client.
\<close>

lemma gateway_leased:
  "\<exists>p. hub_pool (defaults\<lparr>cf_dhcp_start := ''10.0.2.1''\<rparr>) [] = Some (Some p) \<and>
     snd (get_or_assign [2, 0, 0, 0, 0, 2] (serve [[2, 0, 0, 0, 0, 1]] p)) = Inr (IP4 10 0 2 2) \<and>
     own_addrs defaults (IP4 10 0 2 2)"
proof -
  let ?p = "new_pool (v4_prefix @ [10, 0, 2, 1]) 254"
  have "hub_pool (defaults\<lparr>cf_dhcp_start := ''10.0.2.1''\<rparr>) [] = Some (Some ?p)"
  proof -
    have "parse_ip ''10.0.2.1'' = v4_prefix @ [10, 0, 2, 1]" by code_simp
    moreover have "usable_leases (cf_network defaults) (v4_prefix @ [10, 0, 2, 1]) 256 = Some 254" by code_simp
    moreover have "cf_network (defaults\<lparr>cf_dhcp_start := ''10.0.2.1''\<rparr>) = cf_network defaults" by simp
    ultimately show ?thesis by (simp add: hub_pool_def Let_def)
  qed
  moreover have "snd (get_or_assign [2, 0, 0, 0, 0, 2] (serve [[2, 0, 0, 0, 0, 1]] ?p)) = Inr (IP4 10 0 2 2)" by code_simp
  moreover have "own_addrs defaults (IP4 10 0 2 2)" by code_simp
  ultimately show ?thesis by blast
qed

lemma link_mtu_bounds:
  assumes "0 \<le> m" "m < 2 ^ 32"
  shows "68 \<le> link_mtu m \<and> link_mtu m \<le> 9216"
proof -
  obtain k where k: "m = int k" using assms(1) nonneg_int_cases by blast
  with assms(2) have "unat (of_nat k :: u32) = k" by (simp add: unat_of_nat take_bit_nat_eq_self)
  then have "68 \<le> (of_nat k :: u32) \<longleftrightarrow> 68 \<le> k" by (simp add: word_le_nat_alt)
  then show ?thesis by (simp add: link_mtu_def link_max_def Let_def k)
qed

text \<open>The test of \<^verbatim>\<open>main\<close> looks at the configured MTU reduced to 32 bits: 2 to the 32nd passes it as 0.\<close>

lemma link_mtu_wraps: "link_mtu (2 ^ 32) = 0"
  by (simp add: link_mtu_def link_max_def)

end
