(* ===== verification/Relays.thy ===== *)
theory Relays
  imports NatStack Icmp VSwitch
begin

text \<open>
  Byte streams and packets between the host and the guest: the copy loops of a relayed TCP
  connection (\<^verbatim>\<open>pipe\<close> of \<^verbatim>\<open>internal/portfwd/portfwd.go\<close>, \<^verbatim>\<open>pump\<close> of
  \<^verbatim>\<open>internal/nat/nat.go\<close>), the accept loop of a forwarded port, and the reader of the ping
  relay (\<^verbatim>\<open>internal/nat/icmp.go\<close>). What both copy loops promise is the locale \<open>copier\<close>.
  The lemmas show that streams arrive in order and whole while both sides live, that a
  forwarded port reaches its rule's guest, and that a ping is answered at most once.
\<close>


section \<open>Two byte streams in opposite directions\<close>

text \<open>
  A relayed TCP connection copies two streams. An event is a chunk one of the copy loops
  read, with the answer of the write that follows, the end of a loop's input, or the closing
  of both connections, which waits for the end of one loop.
\<close>

datatype flow_dir = ToGuest | ToHost

datatype pipe_event = Copied flow_dir bytes bool | Ended flow_dir | Closing

record pipe_state =
  pp_out :: "flow_dir \<Rightarrow> bytes"
  pp_live :: "flow_dir \<Rightarrow> bool"
  pp_closed :: bool

definition new_pipe :: pipe_state where
  "new_pipe = \<lparr>pp_out = (\<lambda>_. []), pp_live = (\<lambda>_. True), pp_closed = False\<rparr>"

definition stop_copy :: "flow_dir \<Rightarrow> pipe_state \<Rightarrow> pipe_state" where
  "stop_copy d p = p\<lparr>pp_live := (pp_live p)(d := False)\<rparr>"

fun pipe_step :: "pipe_event \<Rightarrow> pipe_state \<Rightarrow> pipe_state" where
  "pipe_step (Copied d b ok) p =
     (if \<not> pp_live p d then p
      else if ok then p\<lparr>pp_out := (pp_out p)(d := pp_out p d @ b)\<rparr>
      else stop_copy d p)"
| "pipe_step (Ended d) p = stop_copy d p"
| "pipe_step Closing p =
     (if pp_live p ToGuest \<and> pp_live p ToHost then p
      else p\<lparr>pp_live := (\<lambda>_. False), pp_closed := True\<rparr>)"

definition pipe :: "pipe_event list \<Rightarrow> pipe_state" where
  "pipe es = fold pipe_step es new_pipe"

text \<open>
  The NAT's \<^verbatim>\<open>pump\<close> is the same copy loop, and the loop that ends closes both
  connections itself.
\<close>

fun pump_step :: "pipe_event \<Rightarrow> pipe_state \<Rightarrow> pipe_state" where
  "pump_step (Copied d b ok) p = (if pp_live p d \<and> \<not> ok then pipe_step Closing (stop_copy d p) else pipe_step (Copied d b ok) p)"
| "pump_step (Ended d) p = (if pp_live p d then pipe_step Closing (stop_copy d p) else p)"
| "pump_step Closing p = p"

definition nat_pumps :: "pipe_event list \<Rightarrow> pipe_state" where
  "nat_pumps es = fold pump_step es new_pipe"

section \<open>Forwarded TCP connections\<close>

text \<open>
  \<^verbatim>\<open>serveTCP\<close>: connections accepted on the host, each with whether the guest could be
  dialled, until an accept fails. A connection is closed or piped to the guest's address and
  port; the last part says that the loop has ended. \<open>None\<close> is a panic.
\<close>

datatype tcp_fate = HostClosed nat | PipedTo nat ip4 u16

fun accept_tcp :: "ip4 \<Rightarrow> u16 \<Rightarrow> (nat option \<times> bool) list \<Rightarrow> tcp_fate list \<times> bool" where
  "accept_tcp dst port [] = ([], False)"
| "accept_tcp dst port ((None, _) # es) = ([], True)"
| "accept_tcp dst port ((Some c, dialled) # es) = (let (fs, e) = accept_tcp dst port es in
     ((if dialled then PipedTo c dst port else HostClosed c) # fs, e))"

definition serve_tcp :: "string \<Rightarrow> u16 \<Rightarrow> (nat option \<times> bool) list \<Rightarrow> (tcp_fate list \<times> bool) option" where
  "serve_tcp guestIP guestPort es = (case to4 (parse_ip guestIP) of
       None \<Rightarrow> None
     | Some dst \<Rightarrow> Some (accept_tcp dst guestPort es))"

section \<open>The ping relay's reader\<close>

text \<open>
  \<^verbatim>\<open>readLoop\<close>: what each \<^verbatim>\<open>recvfrom\<close> returns, \<open>None\<close> an error, with the
  sender when it is an IPv4 one; the result are the frames delivered to the switch.
\<close>

definition icmp_buf :: nat where "icmp_buf = 65536"

fun icmp_read_loop :: "hdr_ops \<Rightarrow> (bytes \<times> ip4 option) option list \<Rightarrow> icmp_relay \<Rightarrow> (icmp_relay \<times> frame list) option" where
  "icmp_read_loop G [] r = Some (r, [])"
| "icmp_read_loop G (None # es) r = Some (r, [])"
| "icmp_read_loop G (Some (pkt, None) # es) r = icmp_read_loop G es r"
| "icmp_read_loop G (Some (pkt, Some src) # es) r = do {
     (r, out) \<leftarrow> handle_reply G (take icmp_buf pkt) src r;
     (r, outs) \<leftarrow> icmp_read_loop G es r;
     Some (r, (case out of None \<Rightarrow> [] | Some f \<Rightarrow> [f]) @ outs) }"

section \<open>What is copied\<close>

text \<open>The chunks read for a direction.\<close>

fun copied :: "flow_dir \<Rightarrow> pipe_event list \<Rightarrow> bytes" where
  "copied d [] = []"
| "copied d (Copied d' b ok # es) = (if d' = d then b else []) @ copied d es"
| "copied d (_ # es) = copied d es"

text \<open>
  What the two relays have in common: a direction that has ended writes nothing more and stays
  ended, one that goes on has written what was read.
\<close>

locale copier =
  fixes step :: "pipe_event \<Rightarrow> pipe_state \<Rightarrow> pipe_state"
  assumes dead: "\<not> pp_live (step e p) d \<Longrightarrow> pp_out (step e p) d = pp_out p d"
    and stays_dead: "pp_live (step e p) d \<Longrightarrow> pp_live p d"
    and live: "pp_live (step e p) d \<Longrightarrow> pp_out (step e p) d = pp_out p d @ copied d [e]"
    and goes_on: "pp_live p d \<Longrightarrow> e = Copied d' b True \<Longrightarrow> pp_live (step e p) d"
begin

lemma ended_silent: "\<not> pp_live p d \<Longrightarrow> pp_out (fold step es p) d = pp_out p d"
proof (induction es arbitrary: p)
  case (Cons e es)
  have "\<not> pp_live (step e p) d" using Cons.prems stays_dead by blast
  with Cons.IH dead show ?case by simp
qed simp

lemma prefix_out: "\<exists>k. pp_out (fold step es p) d = pp_out p d @ take k (copied d es)"
proof (induction es arbitrary: p)
  case (Cons e es)
  have split: "copied d (e # es) = copied d [e] @ copied d es" by (cases e) auto
  show ?case
  proof (cases "pp_live (step e p) d")
    case True
    obtain k where "pp_out (fold step es (step e p)) d = pp_out (step e p) d @ take k (copied d es)"
      using Cons.IH by blast
    then show ?thesis unfolding split using live [OF True]
      by (intro exI [of _ "length (copied d [e]) + k"]) simp
  next
    case False
    with ended_silent dead show ?thesis by (intro exI [of _ 0]) simp
  qed
qed (simp add: exI [of _ 0])

lemma all_out:
  "pp_live p d \<Longrightarrow> \<forall>e \<in> set es. \<exists>d' b. e = Copied d' b True \<Longrightarrow> pp_out (fold step es p) d = pp_out p d @ copied d es"
proof (induction es arbitrary: p)
  case (Cons e es)
  then obtain d' b where e: "e = Copied d' b True" by auto
  then have "pp_live (step e p) d" using goes_on Cons.prems(1) by blast
  with Cons live show ?case by (simp add: e)
qed simp

end

interpretation portfwd_pipe: copier pipe_step
proof unfold_locales
  fix e p d d' b
  show "\<not> pp_live (pipe_step e p) d \<Longrightarrow> pp_out (pipe_step e p) d = pp_out p d"
    by (cases e) (auto simp: stop_copy_def split: if_splits)
  show "pp_live (pipe_step e p) d \<Longrightarrow> pp_live p d"
    by (cases e) (auto simp: stop_copy_def split: if_splits)
  show "pp_live (pipe_step e p) d \<Longrightarrow> pp_out (pipe_step e p) d = pp_out p d @ copied d [e]"
    by (cases e) (auto simp: stop_copy_def split: if_splits)
  show "pp_live p d \<Longrightarrow> e = Copied d' b True \<Longrightarrow> pp_live (pipe_step e p) d"
    by simp
qed

interpretation nat_pipe: copier pump_step
proof unfold_locales
  fix e p d d' b
  show "\<not> pp_live (pump_step e p) d \<Longrightarrow> pp_out (pump_step e p) d = pp_out p d"
    by (cases e) (auto simp: stop_copy_def split: if_splits)
  show "pp_live (pump_step e p) d \<Longrightarrow> pp_live p d"
    by (cases e) (auto simp: stop_copy_def split: if_splits)
  show "pp_live (pump_step e p) d \<Longrightarrow> pp_out (pump_step e p) d = pp_out p d @ copied d [e]"
    by (cases e) (auto simp: stop_copy_def split: if_splits)
  show "pp_live p d \<Longrightarrow> e = Copied d' b True \<Longrightarrow> pp_live (pump_step e p) d"
    by simp
qed

text \<open>The NAT's pumps live and die together.\<close>

lemma pumps_together: "pp_live (nat_pumps es) ToGuest \<longleftrightarrow> pp_live (nat_pumps es) ToHost"
proof -
  have "pp_live (fold pump_step es p) ToGuest \<longleftrightarrow> pp_live (fold pump_step es p) ToHost"
    if "pp_live p ToGuest \<longleftrightarrow> pp_live p ToHost" for p
    using that
  proof (induction es arbitrary: p)
    case (Cons e es)
    have "pp_live (pump_step e p) ToGuest \<longleftrightarrow> pp_live (pump_step e p) ToHost"
    proof (cases e)
      case (Copied d b ok)
      with Cons.prems show ?thesis by (cases d) (auto simp: stop_copy_def)
    next
      case (Ended d)
      with Cons.prems show ?thesis by (cases d) (auto simp: stop_copy_def)
    qed (use Cons.prems in simp)
    with Cons.IH show ?case by simp
  qed simp
  then show ?thesis by (simp add: nat_pumps_def new_pipe_def)
qed

text \<open>Relayed TCP connections are faithful streams: in both relays, whatever the order of reads,
  write failures, ends and closings, the bytes written towards a side are an initial part of
  the bytes read from the other, in order, and all of them as long as nothing has failed or
  ended.\<close>

theorem streams_faithful:
  "\<exists>j k. pp_out (pipe es) d = take j (copied d es) \<and> pp_out (nat_pumps es) d = take k (copied d es) \<and>
     ((\<forall>e \<in> set es. \<exists>d' b. e = Copied d' b True) \<longrightarrow>
        pp_out (pipe es) d = copied d es \<and> pp_out (nat_pumps es) d = copied d es)"
proof -
  have new: "pp_live new_pipe d" "pp_out new_pipe d = []" by (simp_all add: new_pipe_def)
  obtain j k where "pp_out (pipe es) d = take j (copied d es)" "pp_out (nat_pumps es) d = take k (copied d es)"
    using portfwd_pipe.prefix_out [of es new_pipe d] nat_pipe.prefix_out [of es new_pipe d] new
    by (auto simp: pipe_def nat_pumps_def)
  with portfwd_pipe.all_out [of new_pipe d es] nat_pipe.all_out [of new_pipe d es] new show ?thesis
    unfolding pipe_def nat_pumps_def by auto
qed

text \<open>
  A side that finishes sending cuts the answer off: what the other side has not sent by then
  never arrives. For the NAT this holds at once, for a forwarded port from the closing on.
\<close>

lemma half_close_cuts:
  assumes "pp_live (nat_pumps es) d"
  shows "pp_out (nat_pumps (es @ Ended d # es')) d' = pp_out (nat_pumps es) d'"
    and "pp_out (pipe (es @ Ended d # Closing # es')) d' = pp_out (pipe es) d'"
proof -
  have "\<not> pp_live (pump_step (Ended d) (nat_pumps es)) d'"
    using assms by (cases d) (auto simp: stop_copy_def)
  moreover have "pp_out (pump_step (Ended d) (nat_pumps es)) d' = pp_out (nat_pumps es) d'"
    by (auto simp: stop_copy_def)
  ultimately show "pp_out (nat_pumps (es @ Ended d # es')) d' = pp_out (nat_pumps es) d'"
    using nat_pipe.ended_silent unfolding nat_pumps_def by simp
  have "\<not> pp_live (pipe_step Closing (pipe_step (Ended d) (pipe es))) d'" by (cases d) (auto simp: stop_copy_def)
  moreover have "pp_out (pipe_step Closing (pipe_step (Ended d) (pipe es))) d' = pp_out (pipe es) d'"
    by (auto simp: stop_copy_def)
  ultimately show "pp_out (pipe (es @ Ended d # Closing # es')) d' = pp_out (pipe es) d'"
    using portfwd_pipe.ended_silent unfolding pipe_def by simp
qed

section \<open>Started rules and their relays\<close>

text \<open>Every relay that \<open>start\<close> launches has a guest its relay can use.\<close>

lemma start_rules_serves:
  "Serve k guest port \<in> set (fst (start_rules listen fallback rs n opened)) \<Longrightarrow>
     \<exists>r \<in> set rs. rule_guest fallback r = Inr guest \<and> port = f_guest_port r \<and> listen k (f_udp r) (listen_addr r)"
proof (induction rs arbitrary: n opened)
  case (Cons r rs)
  show ?case
  proof (cases "rule_guest fallback r")
    case (Inl e)
    with Cons.prems show ?thesis by (auto simp: abort_def)
  next
    case (Inr g)
    show ?thesis
    proof (cases "listen n (f_udp r) (listen_addr r)")
      case True
      with Cons.prems Inr have "(k = n \<and> guest = g \<and> port = f_guest_port r) \<or>
          Serve k guest port \<in> set (fst (start_rules listen fallback rs (Suc n) (opened @ [n])))"
        by (auto simp: Let_def split: prod.splits)
      with Cons.IH True Inr show ?thesis by auto
    next
      case False
      with Cons.prems Inr show ?thesis by (auto simp: abort_def Let_def)
    qed
  qed
qed simp

lemma accept_tcp_dst:
  "PipedTo c d p \<in> set (fst (accept_tcp dst port es)) \<Longrightarrow> d = dst \<and> p = port \<and> (Some c, True) \<in> set es"
  by (induction dst port es rule: accept_tcp.induct) (auto split: prod.splits if_splits)


definition forward_rule0 :: forward_rule where
  "forward_rule0 = \<lparr>f_udp = False, f_host_ip = [], f_host_port = 8080, f_guest_ip = [], f_guest_port = 80, f_last_octet = 20\<rparr>"

lemma forward_rule0_parsed: "parse_entry (render_rule forward_rule0) = Inr forward_rule0"
  by (rule parse_entry_render) (simp_all add: forward_rule0_def rule_ok_def canonical_guest_def)

lemma forward_rule0_guest: "rule_guest [10, 9, 8, 15] forward_rule0 = Inr (ip4_string (IP4 10 9 8 20))"
  using last_octet_guest [OF forward_rule0_parsed, of "[10, 9, 8, 15]" 10 9 8 15]
  by (simp add: to4_def ip4_of_def pad_def forward_rule0_def)


section \<open>Pings through the relay's reader\<close>

lemma handle_reply_total:
  assumes "headers_ok G"
  shows "\<exists>r' out. handle_reply G pkt src r = Some (r', out) \<and>
    (case out of None \<Rightarrow> r' = r
     | Some f \<Rightarrow> \<exists>seq flow. ir_flows r seq = Some flow \<and> r' = r\<lparr>ir_flows := (ir_flows r)(seq := None)\<rparr> \<and>
         f = reply_frame flow src (drop 8 pkt))"
proof (cases "length pkt < 8")
  case True
  then show ?thesis by (simp add: handle_reply_def hdr_consts)
next
  case False
  then have i: "idx pkt 0 = Some (pkt ! 0)" by (auto simp: idx_def)
  obtain seq where s: "u16_at pkt 6 = Some seq" using False u16_at_defined [of 6 pkt] by auto
  show ?thesis using False i s
    by (auto simp: handle_reply_def hdr_consts subslice_from_def build_echo_reply_frame [OF assms] split: option.splits)
qed



text \<open>
  The reader's buffer holds 64 KiB, the switch's buffers hold \<^verbatim>\<open>linkFrameMax\<close> bytes: a
  reply whose payload a remote host made larger than the request's, which is never compared,
  panics in the switch of a hub with a peer.
\<close>

lemma oversized_reply_panics:
  assumes "9193 \<le> length payload" "\<not> is_multicast (fl_guest_mac flow)" "mac_of (pad 6 (fl_src_mac flow)) \<noteq> fl_guest_mac flow"
  shows "forward t1 t2 uplink (reply_frame flow src payload) hub0 = None"
proof -
  let ?f = "reply_frame flow src payload"
  have len: "\<not> length ?f \<le> link_frame_max" "14 \<le> length ?f"
    using assms(1) by (simp_all add: reply_frame_def link_frame_max_def)
  have dst: "dst_mac ?f = fl_guest_mac flow" by (simp add: dst_mac_def reply_frame_def eth_header_def pad_exact)
  let ?s = "learn (src_mac ?f) uplink t1 hub0"
  have "ports ?s = [(uplink, 0), (local_port, 1), (0, 2)]" by (simp add: hub0_simp uplink_def local_port_def)
  then have flood: "flood uplink ?f s = None" if "ports s = ports ?s" for s
    using that len(1) by (simp add: flood_def uplink_def local_port_def post_def clone_frame_def)
  obtain s2 d where l: "lookup (dst_mac ?f) t2 ?s = (s2, d)" by fastforce
  have "src_mac ?f = mac_of (pad 6 (fl_src_mac flow))" by (simp add: src_mac_def reply_frame_def eth_header_def pad_exact)
  then have "d = None"
    using lookup_fields(5) [OF l] assms(3) dst by (auto simp: fresh_port_def learn_macs hub0_simp split: if_splits)
  with flood [of s2] lookup_fields(1) [OF l] l show ?thesis
    using assms(2) dst by (auto simp: forward_eq [OF len(2)])
qed

end
