(* ===== verification/PeerService.thy ===== *)
theory PeerService
  imports Instance
begin

text \<open>
  Two instances at work together: a guest behind a peer instance is served by the hub. The
  lemmas follow a frame from the peer's reader into the queues of the hub's switch and out
  again through the writers; the theorem composes them with the uplink's answer and with the
  peer's session, over the switch of a hub with one peer. The last section follows the one
  reader of the guest's socket over any change of its instance's role.
\<close>


section \<open>Queued forwarding with one peer\<close>

lemma queued_post_all:
  assumes "sw_inv s" "length f \<le> link_frame_max" "distinct ns" "set ns \<subseteq> snd ` set (ports s)"
  shows "\<exists>s'. post_all f ns s = Some s' \<and> macs s' = macs s \<and> queued_to (set ns) f s s'"
proof -
  obtain s' where "post_all f ns s = Some s'" using post_all_total [OF assms(2)] by blast
  moreover have "\<forall>n \<in> set ns. n < length (objs s)" using ports_objs_less [OF assms(1)] assms(4) by auto
  ultimately show ?thesis using post_all_queued [OF _ assms(3)] by blast
qed

lemma one_peer_inv:
  assumes "sw_inv s" "ports s = [(uplink, nu), (local_port, ng), (k, nk)]" "0 \<le> k"
  shows "distinct [nu, ng, nk]" "peers s = 1" "nu < length (objs s)" "ng < length (objs s)" "nk < length (objs s)"
  using assms by (auto simp: sw_inv_def peer_count_def uplink_def local_port_def entry_ok_def)

lemma peer_frame_up:
  assumes inv: "sw_inv s" and p: "ports s = [(uplink, nu), (local_port, ng), (k, nk)]" "0 \<le> k"
    and f: "14 \<le> length f" "length f \<le> link_frame_max" "is_multicast (dst_mac f)" "\<not> is_multicast (src_mac f)"
  shows "\<exists>s'. forward t1 t2 k f s = Some (s', []) \<and> queued_to {nu, ng} f s s' \<and>
     macs s' (src_mac f) = Some \<lparr>e_port = k, e_seen = t1\<rparr>"
proof -
  let ?s = "learn (src_mac f) k t1 s"
  have inv': "sw_inv ?s" using inv by (rule learn_inv)
  have "flood k f ?s = map_option (\<lambda>s. (s, [])) (post_all f [nu, ng] ?s)"
    using p by (simp add: flood_def uplink_def local_port_def del: post_all.simps)
  moreover obtain s' where "post_all f [nu, ng] ?s = Some s'" "macs s' = macs ?s" "queued_to (set [nu, ng]) f ?s s'"
    using queued_post_all [OF inv' f(2), of "[nu, ng]"] one_peer_inv [OF inv p] p by auto
  moreover have "queued_to {nu, ng} f s s'" using calculation(4) by (simp add: queued_to_def room_def)
  ultimately show ?thesis using f by (simp add: forward_eq learn_macs)
qed

lemma answer_to_peer:
  assumes inv: "sw_inv s" and p: "ports s = [(uplink, nu), (local_port, ng), (k, nk)]" "0 \<le> k"
    and f: "14 \<le> length f" "length f \<le> link_frame_max"
    and dst: "\<not> is_multicast (dst_mac f) \<Longrightarrow> src_mac f \<noteq> dst_mac f \<and> macs s (dst_mac f) = Some \<lparr>e_port = k, e_seen = t0\<rparr>"
  shows "\<exists>s' D. forward t1 t2 uplink f s = Some (s', []) \<and> nk \<in> D \<and> queued_to D f s s'"
proof -
  let ?s = "learn (src_mac f) uplink t1 s"
  note peer = one_peer_inv [OF inv p]
  have same: "queued_to D f s s' \<longleftrightarrow> queued_to D f s2 s'" if "objs s2 = objs s" "ports s2 = ports s" "peers s2 = peers s" "drops s2 = drops s" for D s2 s'
    using that by (simp add: queued_to_def room_def)
  have flood: "\<exists>s'. flood uplink f s2 = Some (s', []) \<and> queued_to {ng, nk} f s s'"
    if i: "sw_inv s2" and e: "objs s2 = objs s" "ports s2 = ports s" "peers s2 = peers s" "drops s2 = drops s" for s2
  proof -
    have "flood uplink f s2 = map_option (\<lambda>s. (s, [])) (post_all f [ng, nk] s2)"
      using p e(2) by (simp add: flood_def uplink_def local_port_def del: post_all.simps)
    moreover obtain s' where "post_all f [ng, nk] s2 = Some s'" "queued_to (set [ng, nk]) f s2 s'"
      using queued_post_all [OF i f(2), of "[ng, nk]"] peer e p by auto
    ultimately show ?thesis using same [OF e] by auto
  qed
  show ?thesis
  proof (cases "is_multicast (dst_mac f)")
    case True
    have "objs ?s = objs s" "ports ?s = ports s" "peers ?s = peers s" "drops ?s = drops s" by simp_all
    from flood [OF learn_inv [OF inv] this]
    obtain s' where "flood uplink f ?s = Some (s', [])" "queued_to {ng, nk} f s s'" by blast
    with True show ?thesis by (intro exI [of _ s'] exI [of _ "{ng, nk}"]) (simp add: forward_eq [OF f(1)])
  next
    case False
    obtain s2 d where l: "lookup (dst_mac f) t2 ?s = (s2, d)" by fastforce
    note lf = lookup_fields [OF l]
    have i2: "sw_inv s2" by (rule lookup_inv [OF learn_inv [OF inv] l])
    have e2: "objs s2 = objs s" "ports s2 = ports s" "peers s2 = peers s" "drops s2 = drops s" using lf by simp_all
    have "macs ?s (dst_mac f) = Some \<lparr>e_port = k, e_seen = t0\<rparr>" using dst [OF False] by (auto simp: learn_macs)
    then have d: "d = None \<or> d = Some k" by (simp add: lf(5) fresh_port_def)
    have "\<exists>s'. emit k f s2 = Some (s', []) \<and> queued_to {nk} f s s'"
    proof -
      have "map_of (ports s2) k = Some nk" using p e2 by (simp add: uplink_def local_port_def)
      moreover obtain s' where "post f nk s2 = Some s'" using post_total [OF f(2)] by blast
      moreover have "queued_to {nk} f s2 s'" using post_queued(1) [OF calculation(2)] peer e2 by simp
      ultimately show ?thesis using same [OF e2] peer(2) e2 by (auto simp: emit_def)
    qed
    then obtain se where e: "emit k f s2 = Some (se, [])" "queued_to {nk} f s se" by blast
    obtain sf where fl: "flood uplink f s2 = Some (sf, [])" "queued_to {ng, nk} f s sf" using flood [OF i2 e2] by blast
    have "k \<noteq> uplink" using p(2) by (simp add: uplink_def)
    with False l have fwd: "forward t1 t2 uplink f s = (case d of None \<Rightarrow> flood uplink f s2 | Some q \<Rightarrow>
        if q = uplink then Some (s2, []) else emit q f s2)"
      by (simp add: forward_eq [OF f(1)])
    from d show ?thesis
    proof
      assume "d = None"
      with fwd fl show ?thesis by (intro exI [of _ sf] exI [of _ "{ng, nk}"]) simp
    next
      assume "d = Some k"
      with fwd e \<open>k \<noteq> uplink\<close> show ?thesis by (intro exI [of _ se] exI [of _ "{nk}"]) simp
    qed
  qed
qed

lemma writer_takes:
  assumes "queued_to D f s s'" "n \<in> D" "n < length (objs s)" "p_out (objs s ! n) = []"
  shows "writer_send n s' = Some (s'\<lparr>objs := (objs s')[n := (objs s' ! n)\<lparr>p_out := []\<rparr>]\<rparr>, [(n, f)])"
    and "p_sink (objs s' ! n) = p_sink (objs s ! n)"
  using assms by (simp_all add: queued_to_def writer_send_def room_def out_queue_def)

lemma not_a_beat:
  assumes "u16_at f 12 = Some t" "t \<noteq> beacon_ethertype" "14 \<le> length f"
  shows "hub_frame now f s = Some (s, Some f)"
proof -
  have "is_beacon f = Some False" using assms by (auto simp: is_beacon_def bounds_simps idx_0 split: bind_splits)
  with assms(3) show ?thesis by (simp add: hub_frame_def)
qed

text \<open>C2: The whole way of an address request in a fleet: a guest of a peer instance broadcasts a
  DISCOVER or REQUEST; the hub's reader of that peer forwards it, the uplink's writer hands it
  to the uplink sink, whose answer goes back into the switch, and the peer's writer sends
  exactly that answer to the peer instance, which hands it to its guest. Nothing goes out by
  another way in between, the answer carries the OFFER or ACK with the address the hub's pool
  assigned, and that address lies in the configured network.\<close>

theorem peer_guest_is_served:
  assumes G: "headers_ok G" and P: "net_ok P"
    and inst: "run_instance P h cfg hub seed ep sw0 = Some (Inr i)" "rn_uplink i = Netstack ns" "ns_pool ns = Some p"
    and sw: "sw_reachable sw" "ports sw = [(uplink, nu), (local_port, ng), (k, nk)]" "0 \<le> k"
      "p_sink (objs sw ! nu) = uplink_snk" "p_out (objs sw ! nu) = []" "p_out (objs sw ! nk) = []"
    and guest: "\<not> is_multicast guest" "mac_bytes guest \<noteq> vde_mac" "is_multicast gw"
    and ip: "if_proto ip = 17" "if_total ip = of_nat (28 + length payload)" "28 + length payload < 65536"
    and udp: "uf_dst uf = 67"
    and msg: "msg_from_bytes D payload = Some m" "msg_type D m = type_discover \<or> msg_type D m = type_request"
      "msg_new_reply D m = Some r0"
    and lease: "get_or_assign (msg_client_hw D m) (serve hws p) = (p', Inr a)"
    and size: "42 + length payload + length padding \<le> link_frame_max"
      "\<And>net. 42 + length (msg_to_bytes D (reply_message D (dhcp_server_of cfg) net m r0 a)) \<le> link_frame_max"
    and f: "f = guest_udp gw guest ip uf payload padding"
  shows "\<exists>net out sw1 sw2 sw3 sw4. forward t1 t2 k f sw = Some (sw1, []) \<and>
     writer_send nu sw1 = Some (sw2, [(nu, f)]) \<and>
     deliver D G t3 t4 t5 t6 ok consume [(nu, f)] sw2 ((ns_sink ns)\<lparr>ul_pool := serve hws p\<rparr>) =
       Some (sw3, (ns_sink ns)\<lparr>ul_pool := p'\<rparr>, []) \<and>
     writer_send nk sw3 = Some (sw4, [(nk, out)]) \<and> hub_frame t7 out s = Some (s, Some out) \<and>
     parse_cidr (cf_network cfg) = Some net \<and> in_subnet net a \<and>
     dst_mac out = (if msg_is_broadcast D m then bcast else guest) \<and>
     drop 42 out = msg_to_bytes D (reply_message D (dhcp_server_of cfg) net m r0 a)"
proof -
  let ?u = "(ns_sink ns)\<lparr>ul_pool := serve hws p\<rparr>" and ?u' = "(ns_sink ns)\<lparr>ul_pool := p'\<rparr>"
  obtain net out where a: "parse_cidr (cf_network cfg) = Some net" "in_subnet net a"
      "uplink_send D G t3 t4 ok consume f ?u = Some (?u', Answered out)"
      "mac_bytes (src_mac out) = vde_mac" "dst_mac out = (if msg_is_broadcast D m then bcast else guest)"
      "drop 42 out = msg_to_bytes D (reply_message D (dhcp_server_of cfg) net m r0 a)"
    and len: "14 \<le> length out" "length out \<le> link_frame_max" and type: "u16_at out 12 = Some 0x0800"
    unfolding f
    by (rule uplink_answers [OF G P inst ip udp msg lease, where ?t1.0 = t3 and ?t2.0 = t4 and ok = ok and
          consume = consume and gw = gw and guest = guest and padding = padding]) (use size(2) in auto)
  have macs: "src_mac f = guest" "dst_mac f = gw" "14 \<le> length f" "length f \<le> link_frame_max"
    using size(1) by (simp_all add: f guest_udp_macs guest_udp_parts)
  note inv = sw_reachable_inv [OF sw(1)]
  note peer = one_peer_inv [OF inv sw(2,3)]
  obtain sw1 where 1: "forward t1 t2 k f sw = Some (sw1, [])" "queued_to {nu, ng} f sw sw1"
      "macs sw1 guest = Some \<lparr>e_port = k, e_seen = t1\<rparr>"
    using peer_frame_up [OF inv sw(2,3) macs(3,4)] macs guest by auto
  define sw2 where "sw2 = sw1\<lparr>objs := (objs sw1)[nu := (objs sw1 ! nu)\<lparr>p_out := []\<rparr>]\<rparr>"
  have 2: "writer_send nu sw1 = Some (sw2, [(nu, f)])"
    using writer_takes(1) [OF 1(2) _ peer(3) sw(5)] by (simp add: sw2_def)
  have o1: "objs sw1 ! nk = objs sw ! nk" "length (objs sw1) = length (objs sw)" "ports sw1 = ports sw"
    using 1(2) peer by (auto simp: queued_to_def)
  have inv2: "sw_inv sw2"
    using writer_send_inv [OF forward_inv [OF inv 1(1)] _ 2] peer(3) o1(2) by simp
  have p2: "ports sw2 = [(uplink, nu), (local_port, ng), (k, nk)]" "macs sw2 guest = Some \<lparr>e_port = k, e_seen = t1\<rparr>"
    "p_out (objs sw2 ! nk) = []" "p_sink (objs sw2 ! nu) = uplink_snk" "nk < length (objs sw2)"
    using 1(3) o1 sw peer writer_takes(2) [OF 1(2) _ peer(3) sw(5)] by (simp_all add: sw2_def)
  have "src_mac out \<noteq> guest" using a(4) guest(2) by auto
  then obtain sw3 D' where 3: "forward t5 t6 uplink out sw2 = Some (sw3, [])" "nk \<in> D'" "queued_to D' out sw2 sw3"
    using answer_to_peer [OF inv2 p2(1) sw(3) len, of t1 t5 t6] a(5) p2(2) guest(1)
    by (auto simp: bcast_def is_multicast_def split: if_splits)
  have 4: "deliver D G t3 t4 t5 t6 ok consume [(nu, f)] sw2 ?u = Some (sw3, ?u', [])"
    using p2(4) a(3) 3(1) by simp
  have 5: "hub_frame t7 out s = Some (s, Some out)"
    using not_a_beat [OF type _ len(1)] by (simp add: beacon_ethertype_def)
  from 1(1) 2 4 writer_takes(1) [OF 3(3,2) p2(5,3)] 5 a(1,2,5,6) show ?thesis by blast
qed

lemma demo_reply_length:
  "length (msg_to_bytes demo_ops (reply_message demo_ops srv net m (n, c, hw) a)) = 2 + length hw"
proof -
  have "length (msg_to_bytes demo_ops (fold (msg_update_option demo_ops) os (n, c, hw))) = 2 + length hw" for os n
    by (induction os arbitrary: n) (simp_all add: demo_ops_def)
  then show ?thesis by (simp add: reply_message_def demo_ops_def)
qed

lemma hub0_objs:
  "ports hub0 = [(uplink, 0), (local_port, 1), (0, 2)]" "p_sink (objs hub0 ! 0) = uplink_snk"
  "p_out (objs hub0 ! 0) = []" "p_out (objs hub0 ! 2) = []"
  by (simp_all add: hub0_simp uplink_def local_port_def uplink_snk_def new_port_def)

lemma peer_guest_is_served_witness:
  "\<exists>u u' net out sw1 sw2 sw3 sw4 s.
     writer_send 0 sw1 = Some (sw2, [(0, guest_udp bcast (MAC 2 0 0 0 0 1) demo_ip demo_udp [1, 0, 2, 0, 0, 0, 0, 1] [])]) \<and>
     deliver demo_ops rfc 2 3 4 5 True (\<lambda>_. True)
       [(0, guest_udp bcast (MAC 2 0 0 0 0 1) demo_ip demo_udp [1, 0, 2, 0, 0, 0, 0, 1] [])] sw2 u = Some (sw3, u', []) \<and>
     writer_send 2 sw3 = Some (sw4, [(2, out)]) \<and> hub_frame 6 out s = Some (s, Some out) \<and>
     in_subnet net (IP4 10 0 2 15) \<and> dst_mac out = MAC 2 0 0 0 0 1"
proof -
  let ?p = "new_pool [10, 0, 2, 15] 240" and ?hw = "[2, 0, 0, 0, 0, 1] :: bytes" and ?m = "(1, False, [2, 0, 0, 0, 0, 1]) :: nat \<times> bool \<times> bytes"
  obtain i where i: "demo_start = Some (Inr i)" "rn_uplink i = plug_link (Netstack demo_netstack)"
    using demo_started by blast
  obtain ns where ns: "rn_uplink i = Netstack ns" "ns_pool ns = Some ?p"
    using i(2) by (simp add: plug_link_def demo_netstack_def Let_def)
  have "lease_addr ?p 0 = IP4 10 0 2 15" by (simp add: lease_addr_def new_pool_def to4_def ip4_of_def pad_def)
  then have "snd (get_or_assign ?hw ?p) = Inr (IP4 10 0 2 15)" by (simp add: get_or_assign_def Let_def new_pool_def)
  then have a: "get_or_assign (msg_client_hw demo_ops ?m) (serve [] ?p) = (fst (get_or_assign ?hw ?p), Inr (IP4 10 0 2 15))"
    by (simp add: prod_eq_iff)
  have m: "\<not> is_multicast (MAC 2 0 0 0 0 1)" "mac_bytes (MAC 2 0 0 0 0 1) \<noteq> vde_mac" "is_multicast bcast"
    by (simp_all add: is_multicast_def vde_mac_bytes bcast_def)
  have d: "if_proto demo_ip = 17" "if_total demo_ip = of_nat (28 + length [1, 0, 2, 0, 0, 0, 0, 1 :: byte])"
      "28 + length [1, 0, 2, 0, 0, 0, 0, 1 :: byte] < 65536" "uf_dst demo_udp = 67"
    by (simp_all add: demo_ip_def demo_udp_def)
  have t: "msg_type demo_ops ?m = type_discover \<or> msg_type demo_ops ?m = type_request" by (simp add: dhcp_types)
  have b: "msg_from_bytes demo_ops [1, 0, 2, 0, 0, 0, 0, 1] = Some ?m" by simp
  have z: "42 + length [1, 0, 2, 0, 0, 0, 0, 1 :: byte] + length ([] :: bytes) \<le> link_frame_max"
      "42 + length (msg_to_bytes demo_ops (reply_message demo_ops (dhcp_server_of defaults) net ?m ?m (IP4 10 0 2 15))) \<le> link_frame_max" for net
    unfolding demo_reply_length by (simp_all add: link_frame_max_def)
  have k: "(0 :: int) \<le> 0" by simp
  have nb: "msg_is_broadcast demo_ops ?m = False" by simp
  from peer_guest_is_served [OF rfc_ok demo_net_ok i(1) ns hub0_reachable hub0_objs(1) k hub0_objs(2-4) m d b t demo_msg(5) a z refl,
      of 0 1 2 3 4 5 True "\<lambda>_. True" 6]
  show ?thesis unfolding nb if_False by (metis (no_types))
qed

section \<open>The guest's wire over the roles of its instance\<close>

text \<open>
  \<^verbatim>\<open>fleet.wire\<close>, the only reader of the guest's socket, while \<^verbatim>\<open>setPeer\<close> swaps the
  connection frames are routed to: frames read, each with two clock readings and the answer
  of a send on that connection, and the error that ends the loop and is passed to
  \<^verbatim>\<open>rxErr\<close>. The results are the switch, the frames each hub connection got, the
  switch's inline sends, and the error.
\<close>

datatype wire_event = SetPeer "nat option" | GuestFrame int int frame "string option" | GuestLost string

fun wire_run :: "wire_event list \<Rightarrow> nat option \<Rightarrow> switch
    \<Rightarrow> (switch \<times> (nat \<times> frame) list \<times> sends \<times> string option) option" where
  "wire_run [] peer sw = Some (sw, [], [], None)"
| "wire_run (SetPeer c # es) peer sw = wire_run es c sw"
| "wire_run (GuestLost e # es) peer sw = Some (sw, [], [], Some e)"
| "wire_run (GuestFrame t1 t2 f err # es) peer sw = do {
     (sw, sent, out) \<leftarrow> wire_frame t1 t2 (map_option (\<lambda>_. err) peer) f sw;
     (sw, hub, outs, e) \<leftarrow> wire_run es peer sw;
     Some (sw, (case peer of Some c \<Rightarrow> if sent then [(c, f)] else [] | None \<Rightarrow> []) @ hub, out @ outs, e) }"

text \<open>What goes to the hub connections and what to the switch: each frame with an Ethernet header to one of them.\<close>

fun hub_share :: "wire_event list \<Rightarrow> nat option \<Rightarrow> (nat \<times> frame) list" where
  "hub_share [] peer = []"
| "hub_share (SetPeer c # es) peer = hub_share es c"
| "hub_share (GuestLost e # es) peer = []"
| "hub_share (GuestFrame t1 t2 f err # es) peer =
     (case peer of Some c \<Rightarrow> if 14 \<le> length f \<and> err = None then [(c, f)] else [] | None \<Rightarrow> []) @ hub_share es peer"

fun switch_share :: "wire_event list \<Rightarrow> nat option \<Rightarrow> (int \<times> int \<times> frame) list" where
  "switch_share [] peer = []"
| "switch_share (SetPeer c # es) peer = switch_share es c"
| "switch_share (GuestLost e # es) peer = []"
| "switch_share (GuestFrame t1 t2 f err # es) peer =
     (if 14 \<le> length f \<and> (peer = None \<or> err \<noteq> None) then [(t1, t2, f)] else []) @ switch_share es peer"

fun wire_frames :: "wire_event list \<Rightarrow> frame list" where
  "wire_frames [] = []"
| "wire_frames (SetPeer c # es) = wire_frames es"
| "wire_frames (GuestLost e # es) = []"
| "wire_frames (GuestFrame t1 t2 f err # es) = (if 14 \<le> length f then [f] else []) @ wire_frames es"

lemma shares_partition:
  "mset (map snd (hub_share es peer)) + mset (map (snd \<circ> snd) (switch_share es peer)) = mset (wire_frames es)"
  by (induction es peer rule: hub_share.induct) (auto split: option.splits)

fun find_lost :: "wire_event list \<Rightarrow> string option" where
  "find_lost [] = None"
| "find_lost (GuestLost e # es) = Some e"
| "find_lost (_ # es) = find_lost es"

text \<open>
  No frame is lost, duplicated or read twice over any sequence of role changes: the run is the
  forwarding of the switch's share, and the hub connections got theirs, in order.
\<close>

lemma wire_exactly_once:
  "wire_run es peer sw = (case peer_frames local_port (switch_share es peer) sw of
     None \<Rightarrow> None
   | Some (sw', outs) \<Rightarrow> Some (sw', hub_share es peer, outs, find_lost es))"
proof (induction es peer arbitrary: sw rule: hub_share.induct)
  case (4 t1 t2 f err es peer)
  have f: "14 \<le> length f \<Longrightarrow> f \<noteq> []" by auto
  show ?case
  proof (cases "length f < 14 \<or> (peer \<noteq> None \<and> err = None)")
    case True
    then show ?thesis using "4.IH" [of sw] by (auto simp: wire_frame_def split: option.splits)
  next
    case False
    then have sh: "switch_share (GuestFrame t1 t2 f err # es) peer = (t1, t2, f) # switch_share es peer"
        "hub_share (GuestFrame t1 t2 f err # es) peer = hub_share es peer" by (auto split: option.splits)
    show ?thesis
    proof (cases "forward t1 t2 local_port f sw")
      case None
      with False f show ?thesis by (auto simp: sh wire_frame_def split: option.splits)
    next
      case (Some r)
      obtain sw1 out where "r = (sw1, out)" by (cases r)
      with False Some f "4.IH" [of sw1] show ?thesis
        by (auto simp: sh wire_frame_def split: option.splits)
    qed
  qed
qed (auto split: option.splits)

end
